theory Spec2Isabelle
  imports Main "HOL-Library.Multiset"
begin

section \<open>Errors\<close>

text \<open>
  The C++ sources guard their invariants with \<open>assert\<close> and read vectors by index.
  A failed assertion aborts the run; a read outside a vector is reported as
  \<open>OutOfRange\<close> (this is what \<open>vector::at\<close> throws, and what an unchecked
  \<open>operator[]\<close> leaves undefined).
\<close>

datatype error = AssertionFailed | OutOfRange

section \<open>Sequential choice-function generator (down_tree_incl_fctor.hh)\<close>

text \<open>
  \<open>ChoiceFunctionType\<close> is \<open>std::vector<unsigned>\<close>; an \<open>unsigned\<close> is a 32-bit
  integer, modelled by a natural number with the wrap-around written out.
\<close>

definition UNSIGNED_MOD :: nat where
  "UNSIGNED_MOD = 4294967296"

record SequentialChoiceFunctionGenerator =
  currentCf :: "nat list"
  cfRange :: nat
  lastCnt :: int

text \<open>The constructor: \<open>currentCf_(length, range-1), range_(range), lastCnt_(range == 0 ? 0 : 2)\<close>,
  followed by \<open>assert(!currentCf_.empty())\<close>.\<close>

definition newGenerator :: "nat \<Rightarrow> nat \<Rightarrow> error + SequentialChoiceFunctionGenerator" where
  "newGenerator len rng =
     (if len = 0 then Inl AssertionFailed
      else Inr \<lparr> currentCf = replicate len ((rng + UNSIGNED_MOD - 1) mod UNSIGNED_MOD),
                 cfRange = rng,
                 lastCnt = (if rng = 0 then 0 else 2) \<rparr>)"

definition IsLast :: "SequentialChoiceFunctionGenerator \<Rightarrow> bool" where
  "IsLast g = (lastCnt g = 0)"

text \<open>The \<open>while (++currentCf_[index] == range_)\<close> loop of \<open>GetNext\<close>, from position
  \<open>index\<close> on. It returns the vector and the updated \<open>lastCnt_\<close>.\<close>

function getNextLoop :: "nat \<Rightarrow> nat list \<Rightarrow> nat \<Rightarrow> int \<Rightarrow> error + (nat list \<times> int)" where
  "getNextLoop rng cf index lc =
     (if length cf \<le> index then Inl OutOfRange
      else
        let v = (cf ! index + 1) mod UNSIGNED_MOD in
        if v = rng then
          (if index + 1 = length cf then Inr (cf[index := 0], lc - 1)
           else getNextLoop rng (cf[index := 0]) (index + 1) lc)
        else Inr (cf[index := v], lc))"
  by pat_completeness auto
termination
  by (relation "measure (\<lambda>(rng, cf, index, lc). length cf - index)") auto

declare getNextLoop.simps [simp del]

definition GetNext ::
  "SequentialChoiceFunctionGenerator \<Rightarrow> error + (SequentialChoiceFunctionGenerator \<times> nat list)" where
  "GetNext g =
     (if IsLast g then Inl AssertionFailed
      else case getNextLoop (cfRange g) (currentCf g) 0 (lastCnt g) of
             Inl e \<Rightarrow> Inl e
           | Inr (cf, lc) \<Rightarrow> Inr (g\<lparr> currentCf := cf, lastCnt := lc \<rparr>, cf))"

text \<open>
  The caller's loop \<open>while (!cfGen.IsLast()) { cf = cfGen.GetNext(); ... }\<close>: the
  choice functions it visits, in order. The loop has no bound of its own, so it is
  run on fuel; \<open>None\<close> means the fuel ran out.
\<close>

fun choiceFunctions ::
  "nat \<Rightarrow> SequentialChoiceFunctionGenerator \<Rightarrow> (error + nat list list) option" where
  "choiceFunctions 0 g = (if IsLast g then Some (Inr []) else None)"
| "choiceFunctions (Suc fuel) g =
     (if IsLast g then Some (Inr [])
      else case GetNext g of
             Inl e \<Rightarrow> Some (Inl e)
           | Inr (g', cf) \<Rightarrow>
               (case choiceFunctions fuel g' of
                  None \<Rightarrow> None
                | Some (Inl e) \<Rightarrow> Some (Inl e)
                | Some (Inr cfs) \<Rightarrow> Some (Inr (cf # cfs))))"

text \<open>The whole enumeration of one generator, as the downward checker runs it:
  construct the generator, then loop until \<open>IsLast\<close>.\<close>

definition allChoiceFunctions :: "nat \<Rightarrow> nat \<Rightarrow> nat \<Rightarrow> (error + nat list list) option" where
  "allChoiceFunctions fuel len rng =
     (case newGenerator len rng of
        Inl e \<Rightarrow> Some (Inl e)
      | Inr g \<Rightarrow> choiceFunctions fuel g)"

text \<open>
  Reference enumeration, for comparison with the generator: the vector of length \<open>k\<close>
  that a counter in base \<open>n\<close> shows at value \<open>i\<close>, position 0 being the least
  significant digit, and the value that such a vector denotes.
\<close>

fun counterVector :: "nat \<Rightarrow> nat \<Rightarrow> nat \<Rightarrow> nat list" where
  "counterVector n 0 i = []"
| "counterVector n (Suc k) i = (i mod n) # counterVector n k (i div n)"

fun counterValue :: "nat \<Rightarrow> nat list \<Rightarrow> nat" where
  "counterValue n [] = 0"
| "counterValue n (x # xs) = x + n * counterValue n xs"


section \<open>Results of fuelled runs\<close>

text \<open>
  A loop or a recursion with no bound of its own runs on fuel. \<open>None\<close> means that the
  fuel ran out, \<open>Some (Inl e)\<close> that the run was aborted with \<open>e\<close>, and
  \<open>Some (Inr x)\<close> that it returned \<open>x\<close>.
\<close>

type_synonym 'a result = "(error + 'a) option"

definition andThen :: "'a result \<Rightarrow> ('a \<Rightarrow> 'b result) \<Rightarrow> 'b result" where
  "andThen m f = (case m of None \<Rightarrow> None | Some (Inl e) \<Rightarrow> Some (Inl e) | Some (Inr x) \<Rightarrow> f x)"

definition returnR :: "'a \<Rightarrow> 'a result" where
  "returnR x = Some (Inr x)"

definition raiseR :: "error \<Rightarrow> 'a result" where
  "raiseR e = Some (Inl e)"

section \<open>Antichain of pairs (vata/util/antichain2c_v2.hh)\<close>

text \<open>
  Modelled from the spec: the header \<open>antichain2c_v2.hh\<close> is not among the sources.
  An \<open>Antichain2Cv2\<close> maps each key (a state) to the list of values stored under it.
  \<open>insert(k, v)\<close> appends \<open>v\<close> to the list under \<open>k\<close>;
  \<open>refine(K, v, cmp)\<close> erases, for each key \<open>k'\<close> of \<open>K\<close>, each stored \<open>v'\<close> with
  \<open>cmp(v, v')\<close>; \<open>contains(K, v, cmp)\<close> holds iff some stored \<open>(k', v')\<close> with \<open>k'\<close>
  in \<open>K\<close> satisfies \<open>cmp(v', v)\<close>; \<open>lookup(k)\<close> is the list stored under \<open>k\<close>.
  A key whose list becomes empty is dropped.
\<close>

type_synonym 'v Antichain2C = "(nat \<times> 'v list) list"

definition Antichain2C_lookup :: "'v Antichain2C \<Rightarrow> nat \<Rightarrow> 'v list" where
  "Antichain2C_lookup ac k = (case map_of ac k of None \<Rightarrow> [] | Some vs \<Rightarrow> vs)"

definition Antichain2C_insert :: "'v Antichain2C \<Rightarrow> nat \<Rightarrow> 'v \<Rightarrow> 'v Antichain2C" where
  "Antichain2C_insert ac k v =
     (if list_ex (\<lambda>(k', vs). k' = k) ac
      then map (\<lambda>(k', vs). if k' = k then (k', vs @ [v]) else (k', vs)) ac
      else ac @ [(k, [v])])"

definition Antichain2C_contains ::
  "'v Antichain2C \<Rightarrow> nat list \<Rightarrow> 'v \<Rightarrow> ('v \<Rightarrow> 'v \<Rightarrow> bool) \<Rightarrow> bool" where
  "Antichain2C_contains ac K v cmp =
     list_ex (\<lambda>k. list_ex (\<lambda>v'. cmp v' v) (Antichain2C_lookup ac k)) K"

definition Antichain2C_refine ::
  "'v Antichain2C \<Rightarrow> nat list \<Rightarrow> 'v \<Rightarrow> ('v \<Rightarrow> 'v \<Rightarrow> bool) \<Rightarrow> 'v Antichain2C" where
  "Antichain2C_refine ac K v cmp =
     filter (\<lambda>(k', vs). vs \<noteq> [])
       (map (\<lambda>(k', vs). if k' \<in> set K then (k', filter (\<lambda>v'. \<not> cmp v v') vs) else (k', vs)) ac)"

section \<open>Downward inclusion functor (down_tree_incl_fctor.hh)\<close>

text \<open>
  States are numbers. A \<open>StateSet\<close> is an \<open>OrdVector\<close>: a sorted vector without
  duplicates, with ordered insertion. A \<open>StateTupleSet\<close> is iterated in the order of
  the list. The preorder is read through \<open>preorder_.get\<close>; \<open>preorderSmaller_\<close> and
  \<open>preorderBigger_\<close> are its two index views.
\<close>

type_synonym StateSet = "nat list"
type_synonym StateTuple = "nat list"
type_synonym StateTupleSet = "nat list list"
type_synonym WorkSetType = "(nat \<times> StateSet) list"

fun OrdVector_insert :: "nat \<Rightarrow> StateSet \<Rightarrow> StateSet" where
  "OrdVector_insert x [] = [x]"
| "OrdVector_insert x (y # ys) =
     (if x < y then x # y # ys else if x = y then y # ys else y # OrdVector_insert x ys)"

text \<open>The top-down view of an automaton: for a state, its symbols with the child
  tuples of each.\<close>

type_synonym DownAut = "nat \<Rightarrow> (nat \<times> StateTupleSet) list"

record DownEnv =
  smaller :: DownAut
  bigger :: DownAut
  preorder :: "nat \<Rightarrow> nat \<Rightarrow> bool"
  preorderSmaller :: "nat \<Rightarrow> nat list"
  preorderBigger :: "nat \<Rightarrow> nat list"

text \<open>The mutable members of the functor. \<open>workset_\<close> and \<open>nonIncl_\<close> are references
  to objects shared by all functors of one run; \<open>childrenCache_\<close> is the functor's own.\<close>

record DownwardInclusionFunctor =
  processingStopped :: bool
  inclusionHolds :: bool
  workset :: WorkSetType
  nonIncl :: "StateSet Antichain2C"
  childrenCache :: "StateSet Antichain2C"

text \<open>\<open>SetComparerSmaller::operator()\<close>: the outer loop runs over \<open>rhs\<close>, the inner
  one over \<open>lhs\<close>, and the test is \<open>preorder_.get(rhsState, lhsState)\<close>.\<close>

definition SetComparerSmaller :: "(nat \<Rightarrow> nat \<Rightarrow> bool) \<Rightarrow> StateSet \<Rightarrow> StateSet \<Rightarrow> bool" where
  "SetComparerSmaller get lhs rhs =
     list_all (\<lambda>rhsState. list_ex (\<lambda>lhsState. get rhsState lhsState) lhs) rhs"

text \<open>\<open>SetComparerBigger::operator()\<close>: the outer loop runs over \<open>lhs\<close>, the inner
  one over \<open>rhs\<close>, and the test is \<open>preorder_.get(lhsState, rhsState)\<close>.\<close>

definition SetComparerBigger :: "(nat \<Rightarrow> nat \<Rightarrow> bool) \<Rightarrow> StateSet \<Rightarrow> StateSet \<Rightarrow> bool" where
  "SetComparerBigger get lhs rhs =
     list_all (\<lambda>lhsState. list_ex (\<lambda>rhsState. get lhsState rhsState) rhs) lhs"

text \<open>The comparers of the same header for plain set inclusion.\<close>

definition InclACComparer :: "nat \<times> StateSet \<Rightarrow> nat \<times> StateSet \<Rightarrow> bool" where
  "InclACComparer lhs rhs = (set (snd lhs) \<subseteq> set (snd rhs))"

definition NonInclACComparer :: "nat \<times> StateSet \<Rightarrow> nat \<times> StateSet \<Rightarrow> bool" where
  "NonInclACComparer lhs rhs = (set (snd rhs) \<subseteq> set (snd lhs))"

definition failProcessing :: "DownwardInclusionFunctor \<Rightarrow> DownwardInclusionFunctor" where
  "failProcessing this = this\<lparr> inclusionHolds := False, processingStopped := True \<rparr>"

definition isInWorkset :: "DownEnv \<Rightarrow> DownwardInclusionFunctor \<Rightarrow> nat \<times> StateSet \<Rightarrow> bool" where
  "isInWorkset env this elem =
     list_ex (\<lambda>stateSetPair.
        preorder env (fst elem) (fst stateSetPair) \<and>
        SetComparerSmaller (preorder env) (snd stateSetPair) (snd elem)) (workset this)"

definition isImpliedByChildren :: "DownEnv \<Rightarrow> DownwardInclusionFunctor \<Rightarrow> nat \<times> StateSet \<Rightarrow> bool" where
  "isImpliedByChildren env this elem =
     Antichain2C_contains (childrenCache this) (preorderBigger env (fst elem)) (snd elem)
       (SetComparerSmaller (preorder env))"

definition isNoninclusionImplied :: "DownEnv \<Rightarrow> DownwardInclusionFunctor \<Rightarrow> nat \<times> StateSet \<Rightarrow> bool" where
  "isNoninclusionImplied env this elem =
     Antichain2C_contains (nonIncl this) (preorderSmaller env (fst elem)) (snd elem)
       (SetComparerBigger (preorder env))"

definition isImpliedByPreorder :: "DownEnv \<Rightarrow> nat \<times> StateSet \<Rightarrow> bool" where
  "isImpliedByPreorder env elem = list_ex (\<lambda>biggerState. preorder env (fst elem) biggerState) (snd elem)"

definition processFoundInclusion ::
  "DownEnv \<Rightarrow> DownwardInclusionFunctor \<Rightarrow> nat \<Rightarrow> StateSet \<Rightarrow> DownwardInclusionFunctor" where
  "processFoundInclusion env this smallerState biggerStateSet =
     this\<lparr> childrenCache :=
       Antichain2C_insert
         (Antichain2C_refine (childrenCache this) (preorderSmaller env smallerState) biggerStateSet
            (SetComparerSmaller (preorder env)))
         smallerState biggerStateSet \<rparr>"

definition processFoundNoninclusion ::
  "DownEnv \<Rightarrow> DownwardInclusionFunctor \<Rightarrow> nat \<Rightarrow> StateSet \<Rightarrow> DownwardInclusionFunctor" where
  "processFoundNoninclusion env this smallerState biggerStateSet =
     this\<lparr> nonIncl :=
       Antichain2C_insert
         (Antichain2C_refine (nonIncl this) (preorderBigger env smallerState) biggerStateSet
            (SetComparerBigger (preorder env)))
         smallerState biggerStateSet \<rparr>"

text \<open>The copy constructor: the shared references are kept, the flags are reset and
  the children cache starts empty.\<close>

definition copyFunctor :: "DownwardInclusionFunctor \<Rightarrow> DownwardInclusionFunctor" where
  "copyFunctor downFctor =
     downFctor\<lparr> processingStopped := False, inclusionHolds := True, childrenCache := [] \<rparr>"

text \<open>In \<open>operator()\<close>, the set \<open>rhsSetForTuplePos\<close> of one choice function \<open>cf\<close> and
  one position: the loop over \<open>cfIndex\<close>, from \<open>cfIndex\<close> on.\<close>

fun rhsSetForTuplePos ::
  "StateTupleSet \<Rightarrow> nat \<Rightarrow> nat \<Rightarrow> nat list \<Rightarrow> nat \<Rightarrow> StateSet \<Rightarrow> error + StateSet" where
  "rhsSetForTuplePos rhsVector arity tuplePos [] cfIndex acc = Inr acc"
| "rhsSetForTuplePos rhsVector arity tuplePos (c # cf) cfIndex acc =
     (if c = tuplePos then
        (if \<not> cfIndex < length rhsVector then Inl AssertionFailed
         else if length (rhsVector ! cfIndex) \<noteq> arity then Inl AssertionFailed
         else if \<not> tuplePos < arity then Inl OutOfRange
         else rhsSetForTuplePos rhsVector arity tuplePos cf (cfIndex + 1)
                (OrdVector_insert (rhsVector ! cfIndex ! tuplePos) acc))
      else rhsSetForTuplePos rhsVector arity tuplePos cf (cfIndex + 1) acc)"

text \<open>
  Modelled from the spec: the automaton class is not among the sources. \<open>tuplesOf\<close>
  reads the child tuples of a state under a symbol; \<open>rightTuples\<close> is the set of child
  tuples of all states of a set under a symbol.
\<close>

definition tuplesOf :: "DownAut \<Rightarrow> nat \<Rightarrow> nat \<Rightarrow> StateTupleSet" where
  "tuplesOf aut state symbol = concat (map snd (filter (\<lambda>(sym, tuples). sym = symbol) (aut state)))"

definition rightTuples :: "DownAut \<Rightarrow> StateSet \<Rightarrow> nat \<Rightarrow> StateTupleSet" where
  "rightTuples aut rhsSet symbol = remdups (concat (map (\<lambda>rhsState. tuplesOf aut rhsState symbol) rhsSet))"

text \<open>
  \<open>operator()\<close> calls \<open>expand\<close> and \<open>expand\<close> calls \<open>operator()\<close> through the
  automaton's iteration. The loops of \<open>operator()\<close> are written first, over the
  recursive call \<open>expandF\<close> they make; \<open>expand\<close> ties the knot below.
  Each loop returns the functor together with its flag.
\<close>

type_synonym ExpandF =
  "DownwardInclusionFunctor \<Rightarrow> nat \<Rightarrow> StateSet \<Rightarrow> (DownwardInclusionFunctor \<times> bool) result"

text \<open>\<open>for (size_t i = 0; i < arity; ++i)\<close> of the search for a bigger tuple, over the
  positions still to visit; the flag is \<open>valid\<close>.\<close>

fun positionLoop ::
  "ExpandF \<Rightarrow> DownwardInclusionFunctor \<Rightarrow> StateTuple \<Rightarrow> StateTuple \<Rightarrow> nat list
    \<Rightarrow> (DownwardInclusionFunctor \<times> bool) result" where
  "positionLoop expandF this lhsTuple rhsTuple [] = returnR (this, True)"
| "positionLoop expandF this lhsTuple rhsTuple (i # positions) =
     (if \<not> i < length lhsTuple \<or> \<not> i < length rhsTuple then raiseR OutOfRange
      else
        andThen (expandF this (lhsTuple ! i) [rhsTuple ! i])
          (\<lambda>(this1, holds).
             if \<not> holds then returnR (this1, False)
             else positionLoop expandF this1 lhsTuple rhsTuple positions))"

text \<open>\<open>for (auto rhsTupleCont : rhs)\<close>: the search for one bigger tuple; the flag is
  \<open>valid\<close>.\<close>

fun biggerTupleLoop ::
  "ExpandF \<Rightarrow> DownwardInclusionFunctor \<Rightarrow> nat \<Rightarrow> StateTuple \<Rightarrow> StateTupleSet
    \<Rightarrow> (DownwardInclusionFunctor \<times> bool) result" where
  "biggerTupleLoop expandF this arity lhsTuple [] = returnR (this, False)"
| "biggerTupleLoop expandF this arity lhsTuple (rhsTuple # rhs) =
     andThen (positionLoop expandF this lhsTuple rhsTuple [0..<arity])
       (\<lambda>(this1, valid).
          if valid then returnR (this1, True)
          else biggerTupleLoop expandF this1 arity lhsTuple rhs)"

text \<open>\<open>for (size_t tuplePos = 0; tuplePos < arity; ++tuplePos)\<close> for one choice
  function \<open>cf\<close>, over the positions still to visit; the flag is \<open>found\<close>.\<close>

fun tuplePosLoop ::
  "ExpandF \<Rightarrow> DownwardInclusionFunctor \<Rightarrow> nat \<Rightarrow> StateTuple \<Rightarrow> StateTupleSet \<Rightarrow> nat list
    \<Rightarrow> nat list \<Rightarrow> (DownwardInclusionFunctor \<times> bool) result" where
  "tuplePosLoop expandF this arity lhsTuple rhsVector cf [] = returnR (this, False)"
| "tuplePosLoop expandF this arity lhsTuple rhsVector cf (tuplePos # positions) =
     (case rhsSetForTuplePos rhsVector arity tuplePos cf 0 [] of
        Inl e \<Rightarrow> raiseR e
      | Inr rhsSet \<Rightarrow>
          if rhsSet = [] then tuplePosLoop expandF this arity lhsTuple rhsVector cf positions
          else if \<not> tuplePos < length lhsTuple then raiseR OutOfRange
          else
            andThen (expandF this (lhsTuple ! tuplePos) rhsSet)
              (\<lambda>(this1, holds).
                 if holds then returnR (this1, True)
                 else tuplePosLoop expandF this1 arity lhsTuple rhsVector cf positions))"

text \<open>\<open>while (!cfGen.IsLast())\<close>, on fuel; the flag tells whether the loop ran to its
  end (\<open>True\<close>) or left through \<open>failProcessing(); return;\<close> (\<open>False\<close>).\<close>

fun choiceLoop ::
  "ExpandF \<Rightarrow> nat \<Rightarrow> DownwardInclusionFunctor \<Rightarrow> nat \<Rightarrow> StateTuple \<Rightarrow> StateTupleSet
    \<Rightarrow> SequentialChoiceFunctionGenerator \<Rightarrow> (DownwardInclusionFunctor \<times> bool) result" where
  "choiceLoop expandF 0 this arity lhsTuple rhsVector cfGen =
     (if IsLast cfGen then returnR (this, True) else None)"
| "choiceLoop expandF (Suc fuel) this arity lhsTuple rhsVector cfGen =
     (if IsLast cfGen then returnR (this, True)
      else
        (case GetNext cfGen of
           Inl e \<Rightarrow> raiseR e
         | Inr (cfGen', cf) \<Rightarrow>
             andThen (tuplePosLoop expandF this arity lhsTuple rhsVector cf [0..<arity])
               (\<lambda>(this1, found).
                  if \<not> found then returnR (this1, False)
                  else choiceLoop expandF fuel this1 arity lhsTuple rhsVector cfGen')))"

text \<open>\<open>for (auto lhsTupleCont : lhs)\<close> of the non-nullary case.\<close>

fun lhsLoop ::
  "ExpandF \<Rightarrow> nat \<Rightarrow> DownwardInclusionFunctor \<Rightarrow> nat \<Rightarrow> StateTupleSet \<Rightarrow> StateTupleSet
    \<Rightarrow> DownwardInclusionFunctor result" where
  "lhsLoop expandF fuel this arity [] rhs = returnR this"
| "lhsLoop expandF fuel this arity (lhsTuple # lhs) rhs =
     (if length lhsTuple \<noteq> arity then raiseR AssertionFailed
      else
        andThen (biggerTupleLoop expandF this arity lhsTuple rhs)
          (\<lambda>(this1, valid).
             if valid then lhsLoop expandF fuel this1 arity lhs rhs
             else
               (case newGenerator (length rhs) (length lhsTuple mod UNSIGNED_MOD) of
                  Inl e \<Rightarrow> raiseR e
                | Inr cfGen \<Rightarrow>
                    andThen (choiceLoop expandF fuel this1 arity lhsTuple rhs cfGen)
                      (\<lambda>(this2, covered).
                         if covered then lhsLoop expandF fuel this2 arity lhs rhs
                         else returnR (failProcessing this2)))))"

text \<open>\<open>operator()(lhs, lhsElemAccess, rhs, rhsElemAccess)\<close>.\<close>

definition functorCall ::
  "ExpandF \<Rightarrow> nat \<Rightarrow> DownwardInclusionFunctor \<Rightarrow> StateTupleSet \<Rightarrow> StateTupleSet
    \<Rightarrow> DownwardInclusionFunctor result" where
  "functorCall expandF fuel this lhs rhs =
     (if lhs = [] then returnR this
      else
        let arity = length (hd lhs) in
        if arity = 0 then
          (if length lhs \<noteq> 1 then raiseR AssertionFailed
           else if rhs \<noteq> [] then
             (if length rhs \<noteq> 1 then raiseR AssertionFailed
              else if length (hd rhs) \<noteq> 0 then raiseR AssertionFailed
              else returnR this)
           else returnR (failProcessing this))
        else if rhs = [] then returnR (failProcessing this)
        else lhsLoop expandF fuel this arity lhs rhs)"

text \<open>
  Modelled from the spec: \<open>Aut::ForeachDownSymbolFromStateAndStateSetDo\<close> is not among
  the sources. For each symbol with a down-transition from the smaller state it hands
  the functor the child tuples of the smaller state and the child tuples of all states
  of the bigger set under that symbol (\<open>rightTuples\<close>). It stops as soon as the functor
  reports \<open>IsProcessingStopped\<close>.
\<close>

fun ForeachDownSymbolFromStateAndStateSetDo ::
  "DownEnv \<Rightarrow> ExpandF \<Rightarrow> nat \<Rightarrow> DownwardInclusionFunctor \<Rightarrow> StateSet \<Rightarrow> (nat \<times> StateTupleSet) list
    \<Rightarrow> DownwardInclusionFunctor result" where
  "ForeachDownSymbolFromStateAndStateSetDo env expandF fuel opFunc rhsSet [] = returnR opFunc"
| "ForeachDownSymbolFromStateAndStateSetDo env expandF fuel opFunc rhsSet ((symbol, lhs) # cluster) =
     andThen (functorCall expandF fuel opFunc lhs (rightTuples (bigger env) rhsSet symbol))
       (\<lambda>opFunc'.
          if processingStopped opFunc' then returnR opFunc'
          else ForeachDownSymbolFromStateAndStateSetDo env expandF fuel opFunc' rhsSet cluster)"

text \<open>\<open>expand(smallerState, biggerStateSet)\<close>, on fuel: the fuel bounds the depth of
  the recursion (and the length of each run of the choice-function loop).\<close>

fun expand ::
  "DownEnv \<Rightarrow> nat \<Rightarrow> DownwardInclusionFunctor \<Rightarrow> nat \<Rightarrow> StateSet
    \<Rightarrow> (DownwardInclusionFunctor \<times> bool) result" where
  "expand env 0 this smallerState biggerStateSet = None"
| "expand env (Suc fuel) this smallerState biggerStateSet =
     (let key = (smallerState, biggerStateSet) in
      if isInWorkset env this key then returnR (this, True)
      else if isNoninclusionImplied env this key then returnR (this, False)
      else if isImpliedByChildren env this key then returnR (this, True)
      else if isImpliedByPreorder env key then returnR (this, True)
      else
        andThen
          (ForeachDownSymbolFromStateAndStateSetDo env
             (\<lambda>this p S. expand env fuel this p S) fuel
             (copyFunctor (this\<lparr> workset := key # workset this \<rparr>))
             biggerStateSet (smaller env smallerState))
          (\<lambda>innerFctor.
             if key \<notin> set (workset innerFctor) then raiseR AssertionFailed
             else
               let this' = this\<lparr> workset := remove1 key (workset innerFctor),
                                    nonIncl := nonIncl innerFctor \<rparr> in
               if inclusionHolds innerFctor
               then returnR (processFoundInclusion env this' smallerState biggerStateSet, True)
               else returnR (processFoundNoninclusion env this' smallerState biggerStateSet, False)))"

section \<open>Tree languages and example automata\<close>

text \<open>
  Trees over the ranked alphabet, and acceptance from a state in the top-down view:
  \<open>accepts aut q t\<close> holds iff some transition from \<open>q\<close> under the root symbol of \<open>t\<close>
  has child states that accept the subtrees, one by one.
\<close>

datatype tree = Node nat "tree list"

fun accepts :: "DownAut \<Rightarrow> nat \<Rightarrow> tree \<Rightarrow> bool" where
  "accepts aut q (Node f ts) =
     list_ex (\<lambda>tuple. list_all2 (\<lambda>q' t. accepts aut q' t) tuple ts) (tuplesOf aut q f)"

text \<open>The identity preorder with its index views.\<close>

definition identityEnv :: "DownAut \<Rightarrow> DownAut \<Rightarrow> DownEnv" where
  "identityEnv a b =
     \<lparr> smaller = a, bigger = b, preorder = (=),
       preorderSmaller = (\<lambda>s. [s]), preorderBigger = (\<lambda>s. [s]) \<rparr>"

definition freshFunctor :: DownwardInclusionFunctor where
  "freshFunctor =
     \<lparr> processingStopped = False, inclusionHolds = True, workset = [], nonIncl = [],
       childrenCache = [] \<rparr>"

text \<open>
  Symbols: 0 is the unary \<open>g\<close>, 1 the leaf \<open>a\<close>, 2 the leaf \<open>b\<close>.
  \<open>autA\<close> has the transitions \<open>0 \<rightarrow> g(1)\<close>, \<open>1 \<rightarrow> a\<close>, \<open>1 \<rightarrow> b\<close>;
  \<open>autB\<close> has \<open>10 \<rightarrow> g(11)\<close>, \<open>10 \<rightarrow> g(12)\<close>, \<open>11 \<rightarrow> a\<close>, \<open>12 \<rightarrow> b\<close>.
  From state 0 and from state 10 both accept exactly \<open>g(a)\<close> and \<open>g(b)\<close>.
\<close>

definition autA :: DownAut where
  "autA = (\<lambda>q. if q = 0 then [(0, [[1]])] else if q = 1 then [(1, [[]]), (2, [[]])] else [])"

definition autB :: DownAut where
  "autB = (\<lambda>q. if q = 10 then [(0, [[11], [12]])]
                else if q = 11 then [(1, [[]])]
                else if q = 12 then [(2, [[]])] else [])"

section \<open>Shared counters of the simulation engine (explicit_lts_sim.cc)\<close>

text \<open>
  A \<open>size_t\<close> is a 64-bit unsigned integer: a natural number, with the wrap-around of
  \<open>++\<close>, \<open>--\<close> and \<open>+\<close> written out.
\<close>

definition SIZE_MOD :: nat where
  "SIZE_MOD = 18446744073709551616"

definition sizeInc :: "nat \<Rightarrow> nat" where
  "sizeInc x = (x + 1) mod SIZE_MOD"

definition sizeDec :: "nat \<Rightarrow> nat" where
  "sizeDec x = (x + SIZE_MOD - 1) mod SIZE_MOD"

text \<open>
  Modelled from the spec: \<open>CachingAllocator\<close> (the vector allocator that recycles
  integer vectors) is not among the sources. The vectors live in a store, addressed by
  their index; \<open>reclaim\<close> puts an address on the free list, and a call of the allocator
  takes the address last reclaimed, or else a new one. A recycled vector keeps its
  contents, a new one is empty.
\<close>

record VectorAllocator =
  store :: "nat list list"
  freeList :: "nat list"

definition allocate :: "VectorAllocator \<Rightarrow> nat \<times> VectorAllocator" where
  "allocate al =
     (case freeList al of
        [] \<Rightarrow> (length (store al), al\<lparr> store := store al @ [[]] \<rparr>)
      | a # rest \<Rightarrow> (a, al\<lparr> freeList := rest \<rparr>))"

definition reclaim :: "VectorAllocator \<Rightarrow> nat \<Rightarrow> VectorAllocator" where
  "reclaim al a = al\<lparr> freeList := a # freeList al \<rparr>"

text \<open>\<open>std::vector::resize\<close>: cut, or fill with zeros.\<close>

definition resize :: "nat list \<Rightarrow> nat \<Rightarrow> nat list" where
  "resize v n = take n v @ replicate (n - length v) 0"

text \<open>
  A \<open>SharedCounter\<close>: \<open>data_\<close> holds, per label, a pointer to a row or \<open>nullptr\<close>;
  \<open>key_\<close>, \<open>states_\<close> and \<open>range_\<close> are references to data of the algorithm. A row
  is \<open>[refCount, master, values...]\<close>.
\<close>

record SharedCounter =
  key :: "nat list"
  states :: nat
  rangeOf :: "nat list"
  data :: "nat option list"

text \<open>The slot of a state in the row of a label:
  \<open>2 + key_[label * states_ + state]\<close>.\<close>

definition slotOf :: "SharedCounter \<Rightarrow> nat \<Rightarrow> nat \<Rightarrow> error + nat" where
  "slotOf c label state =
     (let i = (label * states c + state) mod SIZE_MOD in
      if \<not> i < length (key c) then Inl OutOfRange
      else Inr ((2 + key c ! i) mod SIZE_MOD))"

text \<open>\<open>SharedCounter::incr\<close>.\<close>

definition incr ::
  "VectorAllocator \<Rightarrow> SharedCounter \<Rightarrow> nat \<Rightarrow> nat \<Rightarrow> error + (VectorAllocator \<times> SharedCounter)" where
  "incr al c label state =
     (if \<not> label < length (data c) then Inl AssertionFailed
      else case slotOf c label state of
        Inl e \<Rightarrow> Inl e
      | Inr slot \<Rightarrow>
         (case data c ! label of
            Some a \<Rightarrow>
              (if \<not> a < length (store al) then Inl OutOfRange
               else
                 let row = store al ! a in
                 if row = [] then Inl OutOfRange
                 else if row ! 0 \<noteq> 1 then Inl AssertionFailed
                 else if \<not> slot < length row then Inl AssertionFailed
                 else if \<not> 1 < length row then Inl OutOfRange
                 else
                   let row1 = row[1 := sizeInc (row ! 1)];
                       row2 = row1[slot := sizeInc (row1 ! slot)]
                   in Inr (al\<lparr> store := (store al)[a := row2] \<rparr>, c))
          | None \<Rightarrow>
              (if \<not> label < length (rangeOf c) then Inl OutOfRange
               else
                 let (a, al1) = allocate al;
                     row = resize (store al1 ! a) ((2 + rangeOf c ! label) mod SIZE_MOD)
                 in
                 if \<not> slot < length row then Inl AssertionFailed
                 else if \<not> 1 < length row then Inl OutOfRange
                 else
                   let row1 = (1 # 1 # replicate (length row - 2) 0)[slot := 1]
                   in Inr (al1\<lparr> store := (store al1)[a := row1] \<rparr>,
                           c\<lparr> data := (data c)[label := Some a] \<rparr>))))"

text \<open>
  \<open>SharedCounter::decr\<close>. The assertions are checked; \<open>assert(!(row = nullptr))\<close>
  assigns \<open>nullptr\<close> to \<open>data_[label]\<close>. The result is the allocator, the counter and
  the returned count.
\<close>

definition decr ::
  "VectorAllocator \<Rightarrow> SharedCounter \<Rightarrow> nat \<Rightarrow> nat
    \<Rightarrow> error + (VectorAllocator \<times> SharedCounter \<times> nat)" where
  "decr al c label state =
     (if \<not> label < length (data c) then Inl AssertionFailed
      else case data c ! label of
        None \<Rightarrow> Inl AssertionFailed
      | Some a \<Rightarrow>
         (case slotOf c label state of
            Inl e \<Rightarrow> Inl e
          | Inr slot \<Rightarrow>
             (if \<not> a < length (store al) then Inl OutOfRange
              else
                let row = store al ! a in
                if \<not> slot < length row then Inl AssertionFailed
                else if \<not> 1 < length row then Inl OutOfRange
                else if row ! 1 = 1 then
                  (if row ! slot \<noteq> 1 then Inl AssertionFailed
                   else
                     let al1 = (if row ! 0 = 1 then reclaim al a
                                else al\<lparr> store := (store al)[a := row[0 := sizeDec (row ! 0)]] \<rparr>)
                     in Inr (al1, c\<lparr> data := (data c)[label := None] \<rparr>, 0))
                else
                  let (al2, c2, a2) =
                        (if 1 < row ! 0 then
                           let al1 = al\<lparr> store := (store al)[a := row[0 := sizeDec (row ! 0)]] \<rparr>;
                               (newRow, al2) = allocate al1;
                               resized = (resize (store al2 ! newRow) (length row))[0 := 1];
                               copied = take 1 resized @ drop 1 row
                           in (al2\<lparr> store := (store al2)[newRow := copied] \<rparr>,
                               c\<lparr> data := (data c)[label := Some newRow] \<rparr>, newRow)
                         else (al, c, a));
                      row2 = store al2 ! a2;
                      row3 = row2[1 := sizeDec (row2 ! 1)];
                      row4 = row3[slot := sizeDec (row3 ! slot)]
                  in Inr (al2\<lparr> store := (store al2)[a2 := row4] \<rparr>, c2, row4 ! slot))))"

text \<open>\<open>SharedCounter::copyRow(label, cnt)\<close>: \<open>this\<close> takes the row of \<open>cnt\<close> and the
  reference count of the row goes up.\<close>

definition copyRow ::
  "VectorAllocator \<Rightarrow> SharedCounter \<Rightarrow> nat \<Rightarrow> SharedCounter
    \<Rightarrow> error + (VectorAllocator \<times> SharedCounter)" where
  "copyRow al this label cnt =
     (if \<not> label < length (data this) then Inl AssertionFailed
      else if length (data this) \<noteq> length (data cnt) then Inl AssertionFailed
      else case data cnt ! label of
        None \<Rightarrow> Inl AssertionFailed
      | Some a \<Rightarrow>
         (if data this ! label \<noteq> None then Inl AssertionFailed
          else if \<not> a < length (store al) \<or> store al ! a = [] then Inl OutOfRange
          else
            let row = store al ! a
            in Inr (al\<lparr> store := (store al)[a := row[0 := sizeInc (row ! 0)]] \<rparr>,
                    this\<lparr> data := (data this)[label := Some a] \<rparr>)))"

text \<open>An allocator and a counter for two states and one label, as they stand after
  two calls of \<open>incr\<close> and one \<open>copyRow\<close>: the row at address 0 is shared.\<close>

definition sharedAllocator :: VectorAllocator where
  "sharedAllocator = \<lparr> store = [[2, 2, 1, 1]], freeList = [] \<rparr>"

definition sharedCounter :: SharedCounter where
  "sharedCounter = \<lparr> key = [0, 1], states = 2, rangeOf = [2], data = [Some 0] \<rparr>"

section \<open>Upward inclusion checker (explicit_tree_incl_up.cc)\<close>

text \<open>
  A transition of the bottom-up view: its child tuple and its parent state (the
  symbol is the index under which the transition is stored).
\<close>

record Transition =
  children :: "nat list"
  stateOf :: nat

text \<open>
  The arguments of \<open>checkInternal\<close>. \<open>smallerLeaves\<close> and \<open>biggerLeaves\<close> are indexed
  by symbol; \<open>smallerIndex\<close> by state, symbol and child slot; \<open>biggerIndex\<close> by symbol,
  child slot and state; \<open>ind\<close> and \<open>inv\<close> are the two index views of the preorder.
\<close>

record UpwardInput =
  smallerLeaves :: "Transition list list"
  smallerIndex :: "Transition list list list list"
  smallerFinalStates :: "nat set"
  biggerLeaves :: "Transition list list"
  biggerIndex :: "Transition list list list list"
  biggerFinalStates :: "nat set"
  ind :: "nat list list"
  inv :: "nat list list"

text \<open>How one step of a loop ends: the run is aborted, the inclusion is refuted with a
  description, or the loop goes on.\<close>

datatype 'a step = Abort error | Refute string | Continue 'a

text \<open>A \<open>for\<close> loop over a list whose body may leave the function.\<close>

fun forEachStep :: "('a \<Rightarrow> 's \<Rightarrow> 's step) \<Rightarrow> 'a list \<Rightarrow> 's \<Rightarrow> 's step" where
  "forEachStep body [] s = Continue s"
| "forEachStep body (x # xs) s =
     (case body x s of
        Abort e \<Rightarrow> Abort e
      | Refute d \<Rightarrow> Refute d
      | Continue s' \<Rightarrow> forEachStep body xs s')"

text \<open>\<open>checkIntersection\<close>: the merge walk over two sorted ranges.\<close>

fun checkIntersection :: "nat list \<Rightarrow> nat list \<Rightarrow> bool" where
  "checkIntersection [] s2 = False"
| "checkIntersection (x # xs) [] = False"
| "checkIntersection (x # xs) (y # ys) =
     (if x < y then checkIntersection xs (y # ys)
      else if y < x then checkIntersection (x # xs) ys
      else True)"

text \<open>\<open>intersectionByLookup(d, s)\<close>: erase from \<open>d\<close> what \<open>s\<close> does not hold.\<close>

definition intersectionByLookup :: "'a list \<Rightarrow> 'a list \<Rightarrow> 'a list" where
  "intersectionByLookup d s = filter (\<lambda>i. i \<in> set s) d"

text \<open>
  Modelled from the spec: \<open>antichain1c.hh\<close> is not among the sources. An
  \<open>Antichain1C\<close> is a set of states; \<open>contains(S)\<close> tests for a non-empty
  intersection with \<open>S\<close>, \<open>refine(S)\<close> removes every stored state of \<open>S\<close>, and
  \<open>insert(s)\<close> adds \<open>s\<close>. The stored states are kept in the order of insertion.
\<close>

definition Antichain1C_contains :: "nat list \<Rightarrow> nat list \<Rightarrow> bool" where
  "Antichain1C_contains post S = list_ex (\<lambda>s. s \<in> set S) post"

definition Antichain1C_refine :: "nat list \<Rightarrow> nat list \<Rightarrow> nat list" where
  "Antichain1C_refine post S = filter (\<lambda>s. s \<notin> set S) post"

definition Antichain1C_insert :: "nat list \<Rightarrow> nat \<Rightarrow> nat list" where
  "Antichain1C_insert post s = (if s \<in> set post then post else post @ [s])"

text \<open>Modelled from the spec: what \<open>refine(K, v, cmp, eraser)\<close> of the keyed antichain
  erases, as the list of pairs handed to the eraser.\<close>

definition Antichain2C_erased ::
  "'v Antichain2C \<Rightarrow> nat list \<Rightarrow> 'v \<Rightarrow> ('v \<Rightarrow> 'v \<Rightarrow> bool) \<Rightarrow> (nat \<times> 'v) list" where
  "Antichain2C_erased ac K v cmp =
     concat (map (\<lambda>(k', vs). if k' \<in> set K then map (\<lambda>v'. (k', v')) (filter (\<lambda>v'. cmp v v') vs) else []) ac)"

text \<open>
  \<open>noncachedLte\<close>, and \<open>lte\<close> and \<open>gte\<close> on top of it. The caches only store results,
  and equal macro-states share one cached object, so that pointer equality is
  equality of the vectors. A state of a macro-state has passed
  \<open>assert(state < ind.size())\<close> when it entered \<open>post\<close> (\<open>postLoop_bound\<close> below), so
  the assertion of \<open>noncachedLte\<close> is a conjunct here.
\<close>

definition noncachedLte :: "UpwardInput \<Rightarrow> nat list \<Rightarrow> nat list \<Rightarrow> bool" where
  "noncachedLte inp x y =
     list_all (\<lambda>s1. s1 < length (ind inp) \<and> checkIntersection (ind inp ! s1) y) x"

definition lte :: "UpwardInput \<Rightarrow> nat list \<Rightarrow> nat list \<Rightarrow> bool" where
  "lte inp x y = (if x = y then True else noncachedLte inp x y)"

definition gte :: "UpwardInput \<Rightarrow> nat list \<Rightarrow> nat list \<Rightarrow> bool" where
  "gte inp x y = lte inp y x"

text \<open>\<open>noncachedEvalTransitions\<close>: the transitions of the bigger automaton under
  \<open>symbol\<close> whose child at slot \<open>i\<close> is one of \<open>states\<close>, each once.\<close>

definition evalTransitions :: "UpwardInput \<Rightarrow> nat \<Rightarrow> nat \<Rightarrow> nat list \<Rightarrow> Transition list" where
  "evalTransitions inp symbol i states' =
     (if length (biggerIndex inp) \<le> symbol then []
      else
        let iter = biggerIndex inp ! symbol in
        if length iter \<le> i then []
        else
          remdups (concat (map (\<lambda>s. if length (iter ! i) \<le> s then [] else iter ! i ! s) states')))"

text \<open>
  The body of the loops that fold parent states into \<open>post\<close>: \<open>contains\<close>, then
  \<open>refine\<close> and \<open>insert\<close>, and the accepting flag.
\<close>

definition postInsert :: "UpwardInput \<Rightarrow> Transition \<Rightarrow> nat list \<times> bool \<Rightarrow> (nat list \<times> bool) step" where
  "postInsert inp transition pa =
     (let (post, isAccepting) = pa; s = stateOf transition in
      if \<not> s < length (ind inp) then Abort AssertionFailed
      else if Antichain1C_contains post (ind inp ! s) then Continue (post, isAccepting)
      else if \<not> s < length (inv inp) then Abort AssertionFailed
      else Continue (Antichain1C_insert (Antichain1C_refine post (inv inp ! s)) s,
                     isAccepting \<or> s \<in> biggerFinalStates inp))"

definition leafPostInsert :: "UpwardInput \<Rightarrow> Transition \<Rightarrow> nat list \<times> bool \<Rightarrow> (nat list \<times> bool) step" where
  "leafPostInsert inp transition pa =
     (if children transition \<noteq> [] then Abort AssertionFailed else postInsert inp transition pa)"

text \<open>The antichains of the run. \<open>next\<close> is a \<open>std::set\<close> ordered by the size of the
  macro-state, then the smaller state, then the address of the macro-state; the
  lexicographic order of the vectors stands for the order of the addresses.\<close>

record UpwardState =
  processed :: "nat list Antichain2C"
  nextSet :: "(nat \<times> nat list) list"

fun lexLess :: "nat list \<Rightarrow> nat list \<Rightarrow> bool" where
  "lexLess [] [] = False"
| "lexLess [] (y # ys) = True"
| "lexLess (x # xs) [] = False"
| "lexLess (x # xs) (y # ys) = (x < y \<or> (x = y \<and> lexLess xs ys))"

definition elemLess :: "nat \<times> nat list \<Rightarrow> nat \<times> nat list \<Rightarrow> bool" where
  "elemLess p1 p2 =
     (if length (snd p1) < length (snd p2) then True
      else if length (snd p2) < length (snd p1) then False
      else if fst p1 < fst p2 then True
      else if fst p2 < fst p1 then False
      else lexLess (snd p1) (snd p2))"

fun nextInsert :: "nat \<times> nat list \<Rightarrow> (nat \<times> nat list) list \<Rightarrow> (nat \<times> nat list) list" where
  "nextInsert e [] = [e]"
| "nextInsert e (x # xs) =
     (if elemLess e x then e # x # xs
      else if elemLess x e then x # nextInsert e xs
      else x # xs)"

definition nextErase :: "(nat \<times> nat list) list \<Rightarrow> (nat \<times> nat list) list \<Rightarrow> (nat \<times> nat list) list" where
  "nextErase erased nxt = filter (\<lambda>e. e \<notin> set erased) nxt"

text \<open>
  The common tail of leaf seeding and of promotion: unless \<open>processed\<close> already
  holds a dominating pair, refine \<open>processed\<close> (the eraser removes the erased pairs
  from \<open>next\<close>), insert the pair and put it into \<open>next\<close>.
\<close>

definition addProcessed :: "UpwardInput \<Rightarrow> nat \<Rightarrow> nat list \<Rightarrow> UpwardState \<Rightarrow> UpwardState step" where
  "addProcessed inp p ptr st =
     (if \<not> p < length (ind inp) then Abort AssertionFailed
      else if Antichain2C_contains (processed st) (ind inp ! p) ptr (lte inp) then Continue st
      else if \<not> p < length (inv inp) then Abort AssertionFailed
      else
        let erased = Antichain2C_erased (processed st) (inv inp ! p) ptr (gte inp);
            refined = Antichain2C_refine (processed st) (inv inp ! p) ptr (gte inp)
        in Continue \<lparr> processed = Antichain2C_insert refined p ptr,
                      nextSet = nextInsert (p, ptr) (nextErase erased (nextSet st)) \<rparr>)"

subsection \<open>Leaf seeding\<close>

definition leavesNotCovered :: string where
  "leavesNotCovered = ''Inclusion refuted! Reason: leaves not covered''"

definition sizesIncompatible :: string where
  "sizesIncompatible = ''Inclusion refuted! Reason: leaves set sizes incompatible''"

definition smallerAccepts :: string where
  "smallerAccepts = ''Inclusion refuted! Reason: smaller accepts, bigger does not''"

definition inclusionProved :: string where
  "inclusionProved = ''Inclusion proved!''"

text \<open>The body of the loop over \<open>smallerLeaves[symbol]\<close>.\<close>

definition seedTransition ::
  "UpwardInput \<Rightarrow> bool \<Rightarrow> nat list \<Rightarrow> Transition \<Rightarrow> UpwardState \<Rightarrow> UpwardState step" where
  "seedTransition inp isAccepting tmp transition st =
     (if \<not> isAccepting \<and> stateOf transition \<in> smallerFinalStates inp then Refute leavesNotCovered
      else if \<not> stateOf transition < length (ind inp) then Abort AssertionFailed
      else if checkIntersection (ind inp ! stateOf transition) tmp then Continue st
      else addProcessed inp (stateOf transition) tmp st)"

text \<open>The body of the loop over the leaf symbols.\<close>

definition seedSymbol :: "UpwardInput \<Rightarrow> nat \<Rightarrow> UpwardState \<Rightarrow> UpwardState step" where
  "seedSymbol inp symbol st =
     (case forEachStep (leafPostInsert inp) (biggerLeaves inp ! symbol) ([], False) of
        Abort e \<Rightarrow> Abort e
      | Refute d \<Rightarrow> Refute d
      | Continue (post, isAccepting) \<Rightarrow>
          forEachStep (seedTransition inp isAccepting (sort post)) (smallerLeaves inp ! symbol) st)"

definition seedLeaves :: "UpwardInput \<Rightarrow> UpwardState step" where
  "seedLeaves inp =
     (if length (biggerLeaves inp) < length (smallerLeaves inp) then Refute sizesIncompatible
      else forEachStep (seedSymbol inp) [0..<length (smallerLeaves inp)]
             \<lparr> processed = [], nextSet = [] \<rparr>)"

subsection \<open>Inductive step\<close>

text \<open>\<open>ChoiceVector::build\<close>: the list of macro-states to choose from at each child
  slot, or \<open>None\<close> when \<open>processed\<close> has nothing for some child.\<close>

definition buildChoiceVector ::
  "nat list Antichain2C \<Rightarrow> nat list \<Rightarrow> nat list \<Rightarrow> nat \<Rightarrow> nat list list list option" where
  "buildChoiceVector proc Q childStates index =
     (let choiceLists = map (\<lambda>i. if i = index then [Q] else Antichain2C_lookup proc (childStates ! i))
                    [0..<length childStates]
      in if list_ex (\<lambda>l. l = []) choiceLists then None else Some choiceLists)"

text \<open>The choice vectors that \<open>do ... while (choiceVector.next())\<close> visits, in its
  order: the first slot moves fastest.\<close>

fun allChoices :: "'a list list \<Rightarrow> 'a list list" where
  "allChoices [] = [[]]"
| "allChoices (l # ls) = concat (map (\<lambda>rest. map (\<lambda>x. x # rest) l) (allChoices ls))"

text \<open>\<open>biggerTransitions\<close> of one choice vector: the transitions of the first slot,
  intersected with those of the other slots.\<close>

fun intersectSlots :: "UpwardInput \<Rightarrow> nat \<Rightarrow> nat \<Rightarrow> nat list list \<Rightarrow> Transition list \<Rightarrow> Transition list" where
  "intersectSlots inp symbol k [] acc = acc"
| "intersectSlots inp symbol k (Q # rest) acc =
     intersectSlots inp symbol (k + 1) rest
       (intersectionByLookup acc (evalTransitions inp symbol k Q))"

definition biggerTransitionsOf :: "UpwardInput \<Rightarrow> nat \<Rightarrow> nat list list \<Rightarrow> Transition list step" where
  "biggerTransitionsOf inp symbol choiceVector =
     (case choiceVector of
        [] \<Rightarrow> Abort OutOfRange
      | Q0 # rest \<Rightarrow> Continue (intersectSlots inp symbol 1 rest (evalTransitions inp symbol 0 Q0)))"

text \<open>The body of the \<open>do ... while\<close> loop for one choice vector; the state is
  \<open>temporary\<close>.\<close>

definition choiceStep ::
  "UpwardInput \<Rightarrow> nat \<Rightarrow> Transition \<Rightarrow> nat list list \<Rightarrow> nat list Antichain2C
    \<Rightarrow> nat list Antichain2C step" where
  "choiceStep inp symbol smallerTransition choiceVector temporary =
     (case biggerTransitionsOf inp symbol choiceVector of
        Abort e \<Rightarrow> Abort e
      | Refute d \<Rightarrow> Refute d
      | Continue biggerTransitions \<Rightarrow>
         (case forEachStep (postInsert inp) biggerTransitions ([], False) of
            Abort e \<Rightarrow> Abort e
          | Refute d \<Rightarrow> Refute d
          | Continue (post, isBiggerAccepting) \<Rightarrow>
              let isSmallerAccepting = stateOf smallerTransition \<in> smallerFinalStates inp in
              if post = [] \<or> (\<not> isBiggerAccepting \<and> isSmallerAccepting) then Refute smallerAccepts
              else
                let tmp = sort post; p = stateOf smallerTransition in
                if \<not> p < length (ind inp) then Abort AssertionFailed
                else if checkIntersection (ind inp ! p) tmp then Continue temporary
                else if Antichain2C_contains temporary (ind inp ! p) tmp (lte inp) then Continue temporary
                else if \<not> p < length (inv inp) then Abort AssertionFailed
                else Continue (Antichain2C_insert
                                 (Antichain2C_refine temporary (inv inp ! p) tmp (gte inp)) p tmp)))"

text \<open>The promotion of \<open>temporary\<close> into \<open>processed\<close> and \<open>next\<close>.\<close>

definition promote :: "UpwardInput \<Rightarrow> nat list Antichain2C \<Rightarrow> UpwardState \<Rightarrow> UpwardState step" where
  "promote inp temporary st =
     forEachStep (\<lambda>(p, bigger) s. addProcessed inp p bigger s)
       (concat (map (\<lambda>(p, biggers). map (\<lambda>bigger. (p, bigger)) biggers) temporary)) st"

text \<open>The body of the loop over the smaller transitions that have the popped state
  \<open>q\<close> at child slot \<open>j\<close>.\<close>

definition processTransition ::
  "UpwardInput \<Rightarrow> nat list \<Rightarrow> nat \<Rightarrow> nat \<Rightarrow> Transition \<Rightarrow> UpwardState \<Rightarrow> UpwardState step" where
  "processTransition inp Q symbol j smallerTransition st =
     (if \<not> j < length (children smallerTransition) then Abort AssertionFailed
      else
        case buildChoiceVector (processed st) Q (children smallerTransition) j of
          None \<Rightarrow> Continue st
        | Some choiceLists \<Rightarrow>
           (case forEachStep (choiceStep inp symbol smallerTransition) (allChoices choiceLists) [] of
              Abort e \<Rightarrow> Abort e
            | Refute d \<Rightarrow> Refute d
            | Continue temporary \<Rightarrow> promote inp temporary st))"

text \<open>The loops over the slots and over the symbols of \<open>smallerIndex[q]\<close>.\<close>

definition processSymbol ::
  "UpwardInput \<Rightarrow> nat list \<Rightarrow> nat \<times> Transition list list \<Rightarrow> UpwardState \<Rightarrow> UpwardState step" where
  "processSymbol inp Q symbolAndSlots st =
     (let (symbol, slots) = symbolAndSlots in
      forEachStep
        (\<lambda>(j, smallerTransitions) s.
           forEachStep (processTransition inp Q symbol j) smallerTransitions s)
        (zip [0..<length slots] slots) st)"

definition processPopped :: "UpwardInput \<Rightarrow> nat \<Rightarrow> nat list \<Rightarrow> UpwardState \<Rightarrow> UpwardState step" where
  "processPopped inp q Q st =
     (if \<not> q < length (inv inp) then Abort AssertionFailed
      else if \<not> q < length (smallerIndex inp) then Abort OutOfRange
      else
        let smallerTransitionIndex = smallerIndex inp ! q in
        forEachStep (processSymbol inp Q)
          (zip [0..<length smallerTransitionIndex] smallerTransitionIndex) st)"

text \<open>\<open>while (!next.empty())\<close>, on fuel: one unit per popped pair.\<close>

fun mainLoop :: "UpwardInput \<Rightarrow> nat \<Rightarrow> UpwardState \<Rightarrow> (bool \<times> string) result" where
  "mainLoop inp 0 st =
     (case nextSet st of
        [] \<Rightarrow> Some (Inr (True, inclusionProved))
      | e # rest \<Rightarrow> None)"
| "mainLoop inp (Suc fuel) st =
     (case nextSet st of
        [] \<Rightarrow> Some (Inr (True, inclusionProved))
      | (q, Q) # rest \<Rightarrow>
         (case processPopped inp q Q (st\<lparr> nextSet := rest \<rparr>) of
            Abort e \<Rightarrow> Some (Inl e)
          | Refute d \<Rightarrow> Some (Inr (False, d))
          | Continue st' \<Rightarrow> mainLoop inp fuel st'))"

text \<open>\<open>ExplicitUpwardInclusion::checkInternal\<close>: the verdict and the description set
  in the context.\<close>

definition checkInternal :: "UpwardInput \<Rightarrow> nat \<Rightarrow> (bool \<times> string) result" where
  "checkInternal inp fuel =
     (case seedLeaves inp of
        Abort e \<Rightarrow> Some (Inl e)
      | Refute d \<Rightarrow> Some (Inr (False, d))
      | Continue st \<Rightarrow> mainLoop inp fuel st)"

text \<open>The assertions of leaf seeding: the parent states of the leaf transitions are
  within the index views, and the leaf transitions of the bigger automaton have no
  children (for the symbols that the seeding loop visits).\<close>

definition leavesWellFormed :: "UpwardInput \<Rightarrow> bool" where
  "leavesWellFormed inp =
     (list_all (\<lambda>t. stateOf t < length (ind inp) \<and> stateOf t < length (inv inp))
        (concat (smallerLeaves inp))
      \<and> list_all (\<lambda>t. children t = [] \<and> stateOf t < length (ind inp) \<and> stateOf t < length (inv inp))
          (concat (take (length (smallerLeaves inp)) (biggerLeaves inp))))"

subsection \<open>Example inputs\<close>

text \<open>The identity preorder on the states below \<open>n\<close>, as an index.\<close>

definition identityIndex :: "nat \<Rightarrow> nat list list" where
  "identityIndex n = map (\<lambda>s. [s]) [0..<n]"

text \<open>\<open>autA\<close> and \<open>autB\<close> in the bottom-up view: the leaves \<open>a\<close> (symbol 1) and
  \<open>b\<close> (symbol 2), and the unary \<open>g\<close> (symbol 0); state 0 is final in the smaller
  automaton and state 10 in the bigger one.\<close>

definition upwardAB :: UpwardInput where
  "upwardAB =
     \<lparr> smallerLeaves = [[], [\<lparr> children = [], stateOf = 1 \<rparr>], [\<lparr> children = [], stateOf = 1 \<rparr>]],
       smallerIndex = [[], [[[\<lparr> children = [1], stateOf = 0 \<rparr>]]]],
       smallerFinalStates = {0},
       biggerLeaves = [[], [\<lparr> children = [], stateOf = 11 \<rparr>], [\<lparr> children = [], stateOf = 12 \<rparr>]],
       biggerIndex = [[replicate 11 [] @ [[\<lparr> children = [11], stateOf = 10 \<rparr>],
                                          [\<lparr> children = [12], stateOf = 10 \<rparr>]]]],
       biggerFinalStates = {10},
       ind = identityIndex 13,
       inv = identityIndex 13 \<rparr>"

text \<open>A smaller automaton with the one transition \<open>a \<rightarrow> 0\<close> and the given final
  states, against a bigger automaton with the leaf symbol \<open>a\<close> but no transition.\<close>

definition leafOnly :: "nat set \<Rightarrow> UpwardInput" where
  "leafOnly finals =
     \<lparr> smallerLeaves = [[\<lparr> children = [], stateOf = 0 \<rparr>]],
       smallerIndex = [[]],
       smallerFinalStates = finals,
       biggerLeaves = [[]],
       biggerIndex = [],
       biggerFinalStates = {},
       ind = identityIndex 1,
       inv = identityIndex 1 \<rparr>"

text \<open>The same smaller automaton against a bigger automaton with no leaf symbol.\<close>

definition noLeafSymbols :: UpwardInput where
  "noLeafSymbols = (leafOnly {0})\<lparr> biggerLeaves := [] \<rparr>"

text \<open>Smaller: \<open>a \<rightarrow> 0\<close>, \<open>f(0) \<rightarrow> 1\<close> (\<open>a\<close> is symbol 0, \<open>f\<close> symbol 1) with the
  given final states; bigger: \<open>a \<rightarrow> 5\<close> only, no final state.\<close>

definition unaryStep :: "nat set \<Rightarrow> UpwardInput" where
  "unaryStep finals =
     \<lparr> smallerLeaves = [[\<lparr> children = [], stateOf = 0 \<rparr>]],
       smallerIndex = [[[], [[\<lparr> children = [0], stateOf = 1 \<rparr>]]], []],
       smallerFinalStates = finals,
       biggerLeaves = [[\<lparr> children = [], stateOf = 5 \<rparr>]],
       biggerIndex = [],
       biggerFinalStates = {},
       ind = identityIndex 6,
       inv = identityIndex 6 \<rparr>"

section \<open>Simulation engine (explicit_lts_sim.cc)\<close>

text \<open>Failing runs: the first error aborts the rest.\<close>

definition bindE :: "error + 'a \<Rightarrow> ('a \<Rightarrow> error + 'b) \<Rightarrow> error + 'b" where
  "bindE m f = (case m of Inl e \<Rightarrow> Inl e | Inr x \<Rightarrow> f x)"

fun foldE :: "('a \<Rightarrow> 's \<Rightarrow> error + 's) \<Rightarrow> 'a list \<Rightarrow> 's \<Rightarrow> error + 's" where
  "foldE body [] s = Inr s"
| "foldE body (x # xs) s = bindE (body x s) (foldE body xs)"

subsection \<open>Collaborators\<close>

text \<open>
  Modelled from the spec: \<open>vata/explicit_lts.hh\<close> is not among the sources. An LTS has
  \<open>states()\<close> states, \<open>labels()\<close> labels and labelled edges \<open>(q, a, r)\<close>;
  \<open>post(a)[q]\<close> lists the \<open>a\<close>-successors of \<open>q\<close>, \<open>pre(a)[r]\<close> the \<open>a\<close>-predecessors of
  \<open>r\<close>, and \<open>bwLabels(r)\<close> the labels of the edges that enter \<open>r\<close>.
\<close>

record ExplicitLTS =
  ltsStates :: nat
  ltsLabels :: nat
  ltsTransitions :: "(nat \<times> nat \<times> nat) list"

definition ltsPost :: "ExplicitLTS \<Rightarrow> nat \<Rightarrow> nat \<Rightarrow> nat list" where
  "ltsPost lts a q = map (\<lambda>(q', a', r). r) (filter (\<lambda>(q', a', r). q' = q \<and> a' = a) (ltsTransitions lts))"

definition ltsPre :: "ExplicitLTS \<Rightarrow> nat \<Rightarrow> nat \<Rightarrow> nat list" where
  "ltsPre lts a r = map (\<lambda>(q, a', r'). q) (filter (\<lambda>(q, a', r'). r' = r \<and> a' = a) (ltsTransitions lts))"

definition bwLabels :: "ExplicitLTS \<Rightarrow> nat \<Rightarrow> nat list" where
  "bwLabels lts r =
     sort (remdups (map (\<lambda>(q, a, r'). a) (filter (\<lambda>(q, a, r'). r' = r) (ltsTransitions lts))))"

text \<open>
  Modelled from the spec: \<open>vata/util/smart_set.hh\<close> is not among the sources. A
  \<open>SmartSet\<close> holds its elements with a count each: \<open>add\<close> counts an element up (and
  inserts it at the first time), \<open>removeStrict\<close> and \<open>remove\<close> count it down (and erase
  it at the last time), \<open>assignFlat\<close> takes the elements of another set with count 1.
\<close>

type_synonym SmartSet = "(nat \<times> nat) list"

definition SmartSet_contains :: "SmartSet \<Rightarrow> nat \<Rightarrow> bool" where
  "SmartSet_contains s x = list_ex (\<lambda>(y, c). y = x) s"

definition SmartSet_add :: "nat \<Rightarrow> SmartSet \<Rightarrow> SmartSet" where
  "SmartSet_add x s =
     (if SmartSet_contains s x then map (\<lambda>(y, c). if y = x then (y, c + 1) else (y, c)) s
      else s @ [(x, 1)])"

definition SmartSet_remove :: "nat \<Rightarrow> SmartSet \<Rightarrow> SmartSet" where
  "SmartSet_remove x s =
     filter (\<lambda>(y, c). c \<noteq> 0) (map (\<lambda>(y, c). if y = x then (y, c - 1) else (y, c)) s)"

definition SmartSet_removeStrict :: "nat \<Rightarrow> SmartSet \<Rightarrow> error + SmartSet" where
  "SmartSet_removeStrict x s =
     (if SmartSet_contains s x then Inr (SmartSet_remove x s) else Inl AssertionFailed)"

definition SmartSet_elements :: "SmartSet \<Rightarrow> nat list" where
  "SmartSet_elements s = map fst s"

definition SmartSet_assignFlat :: "SmartSet \<Rightarrow> SmartSet" where
  "SmartSet_assignFlat s = map (\<lambda>(y, c). (y, 1)) s"

text \<open>\<open>ExplicitLTS::buildDelta\<close> (modelled with the LTS): per label, the set of the
  targets and the set of the sources of its edges.\<close>

definition buildDelta :: "ExplicitLTS \<Rightarrow> SmartSet list \<times> SmartSet list" where
  "buildDelta lts =
     (map (\<lambda>a. foldl (\<lambda>s (q, a', r). if a' = a then SmartSet_add r s else s) [] (ltsTransitions lts))
        [0..<ltsLabels lts],
      map (\<lambda>a. foldl (\<lambda>s (q, a', r). if a' = a then SmartSet_add q s else s) [] (ltsTransitions lts))
        [0..<ltsLabels lts])"

text \<open>
  Modelled from the spec: \<open>vata/util/binary_relation.hh\<close> is not among the sources. A
  \<open>BinaryRelation\<close> has a size and one bit per pair. \<open>split(index, reflexive)\<close> adds
  an entry that copies the row and the column of \<open>index\<close>, relates the new entry to
  itself as \<open>reflexive\<close> says, and returns the new entry.
\<close>

record BinaryRelation =
  relSize :: nat
  relGet :: "nat \<Rightarrow> nat \<Rightarrow> bool"

definition emptyRelation :: BinaryRelation where
  "emptyRelation = \<lparr> relSize = 0, relGet = (\<lambda>i j. False) \<rparr>"

definition relSet :: "BinaryRelation \<Rightarrow> nat \<Rightarrow> nat \<Rightarrow> bool \<Rightarrow> BinaryRelation" where
  "relSet r i j v = r\<lparr> relGet := (\<lambda>i' j'. if i' = i \<and> j' = j then v else relGet r i' j') \<rparr>"

definition relSplit :: "BinaryRelation \<Rightarrow> nat \<Rightarrow> bool \<Rightarrow> nat \<times> BinaryRelation" where
  "relSplit r index reflexive =
     (let n = relSize r in
      (n, \<lparr> relSize = n + 1,
            relGet = (\<lambda>i j. if i = n \<and> j = n then reflexive
                            else if i = n then relGet r index j
                            else if j = n then relGet r i index
                            else relGet r i j) \<rparr>))"

text \<open>
  Modelled from the spec: \<open>vata/util/shared_list.hh\<close> is not among the sources. A
  remove list is the list of its states; \<open>append\<close> reports whether the list was
  created by the call, and \<open>copy\<close> yields a list with the same states.
\<close>

definition RemoveList_append :: "nat list option \<Rightarrow> nat \<Rightarrow> nat list option \<times> bool" where
  "RemoveList_append l x = (case l of None \<Rightarrow> (Some [x], True) | Some xs \<Rightarrow> (Some (xs @ [x]), False))"

subsection \<open>Blocks\<close>

text \<open>
  An \<open>OLRTBlock\<close>. The ring of \<open>StateListElem\<close> that starts at \<open>_states\<close> is the list
  of its states from the head on, and likewise for \<open>_tmp\<close>; a block pointer is the
  position of the block in \<open>_partition\<close>. \<open>_counter\<close> is the \<open>data_\<close> of the block's
  \<open>SharedCounter\<close> (its other members are references into the algorithm).
\<close>

record OLRTBlock =
  blockIndex :: nat
  blockStates :: "nat list"
  blockRemove :: "nat list option list"
  blockCounter :: "nat option list"
  blockInset :: SmartSet
  blockTmp :: "nat list"

text \<open>\<open>OLRTBlock::moveToTmp\<close>, that is \<open>StateListElem::move(_states, _tmp)\<close>: the head of
  \<open>_states\<close> becomes the successor of the moved element, and the element goes to the
  end of \<open>_tmp\<close>. \<open>assert(src)\<close> fails on an empty ring; moving an element that is
  not on the ring of \<open>_states\<close> is undefined.\<close>

definition moveToTmp :: "OLRTBlock \<Rightarrow> nat \<Rightarrow> error + OLRTBlock" where
  "moveToTmp b q =
     (if blockStates b = [] then Inl AssertionFailed
      else if q \<notin> set (blockStates b) then Inl OutOfRange
      else Inr (b\<lparr> blockStates := tl (dropWhile (\<lambda>x. x \<noteq> q) (blockStates b))
                                     @ takeWhile (\<lambda>x. x \<noteq> q) (blockStates b),
                    blockTmp := blockTmp b @ [q] \<rparr>))"

text \<open>A loop \<open>do { ... elem = elem->next_; } while (elem != states)\<close> visits the states
  of a ring; it reads through a null pointer when the ring is empty.\<close>

definition ring :: "nat list \<Rightarrow> error + nat list" where
  "ring states' = (if states' = [] then Inl OutOfRange else Inr states')"

text \<open>\<open>OLRTBlock::checkEmpty\<close>: the block and the returned flag.\<close>

definition checkEmpty :: "OLRTBlock \<Rightarrow> OLRTBlock \<times> bool" where
  "checkEmpty b =
     (if blockStates b \<noteq> [] then (b, False)
      else (b\<lparr> blockStates := blockTmp b, blockTmp := [] \<rparr>, True))"

text \<open>The constructor \<open>OLRTBlock(lts, index, states, key, range, vectorAllocator)\<close> of
  the first block.\<close>

definition firstBlock :: "ExplicitLTS \<Rightarrow> OLRTBlock" where
  "firstBlock lts =
     \<lparr> blockIndex = 0,
       blockStates = [0..<ltsStates lts],
       blockRemove = replicate (ltsLabels lts) None,
       blockCounter = replicate (ltsLabels lts) None,
       blockInset = foldl (\<lambda>s q. foldl (\<lambda>s a. SmartSet_add a s) s (bwLabels lts q)) [] [0..<ltsStates lts],
       blockTmp = [] \<rparr>"

text \<open>The constructor \<open>OLRTBlock(lts, parent, index)\<close>: the new block takes the \<open>_tmp\<close>
  ring of the parent and the incoming labels of its states move from the parent's
  inset to its own. The result is the parent and the new block.\<close>

definition moveInset :: "ExplicitLTS \<Rightarrow> nat \<Rightarrow> SmartSet \<times> SmartSet \<Rightarrow> error + (SmartSet \<times> SmartSet)" where
  "moveInset lts q =
     foldE (\<lambda>a (parentInset, inset).
              bindE (SmartSet_removeStrict a parentInset)
                (\<lambda>parentInset'. Inr (parentInset', SmartSet_add a inset)))
       (bwLabels lts q)"

definition childBlock :: "ExplicitLTS \<Rightarrow> OLRTBlock \<Rightarrow> nat \<Rightarrow> error + (OLRTBlock \<times> OLRTBlock)" where
  "childBlock lts parent index =
     (if blockTmp parent = [] then Inl AssertionFailed
      else
        bindE (foldE (moveInset lts) (blockTmp parent) (blockInset parent, []))
          (\<lambda>(parentInset, inset).
             Inr (parent\<lparr> blockTmp := [], blockInset := parentInset \<rparr>,
                  \<lparr> blockIndex = index,
                    blockStates = blockTmp parent,
                    blockRemove = replicate (ltsLabels lts) None,
                    blockCounter = replicate (ltsLabels lts) None,
                    blockInset = inset,
                    blockTmp = [] \<rparr>)))"

subsection \<open>The algorithm\<close>

text \<open>
  The members of \<open>OLRTAlgorithm\<close>. \<open>_index[q].block_\<close> is \<open>algBlockOf ! q\<close>, the
  position of the block of \<open>q\<close>; \<open>_queue\<close> is a stack with its top at the head of the
  list.
\<close>

record OLRTAlgorithm =
  algLts :: ExplicitLTS
  algAllocator :: VectorAllocator
  algPartition :: "OLRTBlock list"
  algRelation :: BinaryRelation
  algBlockOf :: "nat list"
  algQueue :: "(nat \<times> nat) list"
  algDelta :: "SmartSet list"
  algDelta1 :: "SmartSet list"
  algKey :: "nat list"
  algRange :: "nat list"

text \<open>\<open>new OLRTBlock(lts, *block, index)\<close> followed by \<open>_partition.push_back\<close>: the
  states of the new block point to it. The result is the algorithm and the position
  of the new block.\<close>

definition pushChildBlock :: "OLRTAlgorithm \<Rightarrow> nat \<Rightarrow> nat \<Rightarrow> error + (OLRTAlgorithm \<times> nat)" where
  "pushChildBlock alg parentPos index =
     (if \<not> parentPos < length (algPartition alg) then Inl OutOfRange
      else
        bindE (childBlock (algLts alg) (algPartition alg ! parentPos) index)
          (\<lambda>(parent, child).
             let newPos = length (algPartition alg) in
             Inr (alg\<lparr> algPartition := (algPartition alg)[parentPos := parent] @ [child],
                        algBlockOf := foldl (\<lambda>bo q. bo[q := newPos]) (algBlockOf alg) (blockStates child) \<rparr>,
                  newPos)))"

text \<open>\<open>block->moveToTmp(elem)\<close> for the block of a state.\<close>

definition moveStateToTmp :: "OLRTAlgorithm \<Rightarrow> nat \<Rightarrow> error + (OLRTAlgorithm \<times> nat)" where
  "moveStateToTmp alg q =
     (if \<not> q < length (algBlockOf alg) then Inl AssertionFailed
      else
        let pos = algBlockOf alg ! q in
        if \<not> pos < length (algPartition alg) then Inl OutOfRange
        else
          bindE (moveToTmp (algPartition alg ! pos) q)
            (\<lambda>b. Inr (alg\<lparr> algPartition := (algPartition alg)[pos := b] \<rparr>, pos)))"

text \<open>\<open>internalSplit\<close>: the algorithm and \<open>modifiedBlocks\<close>. \<open>blockMask\<close> holds the
  indices of the blocks in \<open>modifiedBlocks\<close>.\<close>

definition internalSplitStep ::
  "nat \<Rightarrow> OLRTAlgorithm \<times> nat list \<Rightarrow> error + (OLRTAlgorithm \<times> nat list)" where
  "internalSplitStep q am =
     (let (alg, modifiedBlocks) = am in
      bindE (moveStateToTmp alg q)
        (\<lambda>(alg', pos).
           if \<not> blockIndex (algPartition alg' ! pos) < length (algPartition alg') then Inl AssertionFailed
           else if list_ex (\<lambda>p. blockIndex (algPartition alg' ! p) = blockIndex (algPartition alg' ! pos))
                     modifiedBlocks
           then Inr (alg', modifiedBlocks)
           else Inr (alg', modifiedBlocks @ [pos])))"

definition internalSplit :: "OLRTAlgorithm \<Rightarrow> nat list \<Rightarrow> error + (OLRTAlgorithm \<times> nat list)" where
  "internalSplit alg remove = foldE internalSplitStep remove (alg, [])"

text \<open>\<open>_relation.split(block->index(), true)\<close>, \<open>new OLRTBlock\<close> and \<open>push_back\<close>, as
  \<open>fastSplit\<close> and \<open>split\<close> do it.\<close>

definition splitBlock :: "OLRTAlgorithm \<Rightarrow> nat \<Rightarrow> error + (OLRTAlgorithm \<times> nat)" where
  "splitBlock alg pos =
     (let (newIndex, rel) = relSplit (algRelation alg) (blockIndex (algPartition alg ! pos)) True in
      pushChildBlock (alg\<lparr> algRelation := rel \<rparr>) pos newIndex)"

definition applyCheckEmpty :: "OLRTAlgorithm \<Rightarrow> nat \<Rightarrow> OLRTAlgorithm \<times> bool" where
  "applyCheckEmpty alg pos =
     (let (b, wasEmpty) = checkEmpty (algPartition alg ! pos) in
      (alg\<lparr> algPartition := (algPartition alg)[pos := b] \<rparr>, wasEmpty))"

definition fastSplitStep :: "nat \<Rightarrow> OLRTAlgorithm \<Rightarrow> error + OLRTAlgorithm" where
  "fastSplitStep pos alg =
     (let (alg1, wasEmpty) = applyCheckEmpty alg pos in
      if blockTmp (algPartition alg1 ! pos) = [] then Inr alg1
      else bindE (splitBlock alg1 pos) (\<lambda>(alg2, newPos). Inr alg2))"

definition fastSplit :: "OLRTAlgorithm \<Rightarrow> nat list \<Rightarrow> error + OLRTAlgorithm" where
  "fastSplit alg remove =
     bindE (internalSplit alg remove)
       (\<lambda>(alg1, modifiedBlocks). foldE fastSplitStep modifiedBlocks alg1)"

text \<open>The counter of a block, with the references to \<open>_key\<close>, the number of states
  and \<open>_range\<close> filled in.\<close>

definition counterOf :: "OLRTAlgorithm \<Rightarrow> nat \<Rightarrow> SharedCounter" where
  "counterOf alg pos =
     \<lparr> key = algKey alg, states = ltsStates (algLts alg), rangeOf = algRange alg,
       data = blockCounter (algPartition alg ! pos) \<rparr>"

definition setCounter :: "OLRTAlgorithm \<Rightarrow> nat \<Rightarrow> VectorAllocator \<Rightarrow> SharedCounter \<Rightarrow> OLRTAlgorithm" where
  "setCounter alg pos al c =
     alg\<lparr> algAllocator := al,
          algPartition := (algPartition alg)[pos := (algPartition alg ! pos)\<lparr> blockCounter := data c \<rparr>] \<rparr>"

text \<open>The loop over the inset of the new block in \<open>split\<close>: \<open>copyRow\<close> and the copy of
  the remove list.\<close>

definition inheritStep :: "nat \<Rightarrow> nat \<Rightarrow> nat \<Rightarrow> OLRTAlgorithm \<Rightarrow> error + OLRTAlgorithm" where
  "inheritStep pos newPos a alg =
     bindE (copyRow (algAllocator alg) (counterOf alg newPos) a (counterOf alg pos))
       (\<lambda>(al, c).
          let alg1 = setCounter alg newPos al c in
          if \<not> a < length (blockRemove (algPartition alg1 ! pos)) then Inl OutOfRange
          else
            (case blockRemove (algPartition alg1 ! pos) ! a of
               None \<Rightarrow> Inr alg1
             | Some l \<Rightarrow>
                 Inr (alg1\<lparr> algQueue := (newPos, a) # algQueue alg1,
                            algPartition := (algPartition alg1)
                              [newPos := (algPartition alg1 ! newPos)
                                 \<lparr> blockRemove := (blockRemove (algPartition alg1 ! newPos))[a := Some l] \<rparr>] \<rparr>)))"

text \<open>The body of the loop over \<open>modifiedBlocks\<close> in \<open>split\<close>; the state is the
  algorithm with \<open>removeList\<close>.\<close>

definition splitStep :: "nat \<Rightarrow> OLRTAlgorithm \<times> nat list \<Rightarrow> error + (OLRTAlgorithm \<times> nat list)" where
  "splitStep pos ar =
     (let (alg, removeList) = ar;
          (alg1, wasEmpty) = applyCheckEmpty alg pos
      in
      if wasEmpty then Inr (alg1, removeList @ [pos])
      else if blockTmp (algPartition alg1 ! pos) = [] then Inl AssertionFailed
      else
        bindE (splitBlock alg1 pos)
          (\<lambda>(alg2, newPos).
             bindE (foldE (inheritStep pos newPos)
                      (SmartSet_elements (blockInset (algPartition alg2 ! newPos))) alg2)
               (\<lambda>alg3. Inr (alg3, removeList @ [newPos]))))"

definition split :: "OLRTAlgorithm \<Rightarrow> nat list \<Rightarrow> error + (OLRTAlgorithm \<times> nat list)" where
  "split alg remove =
     bindE (internalSplit alg remove)
       (\<lambda>(alg1, modifiedBlocks). foldE splitStep modifiedBlocks (alg1, []))"

text \<open>\<open>makeBlock(states, blockIndex)\<close>.\<close>

definition makeBlockStep :: "nat \<Rightarrow> nat \<Rightarrow> OLRTAlgorithm \<Rightarrow> error + OLRTAlgorithm" where
  "makeBlockStep block q alg =
     (if \<not> q < length (algBlockOf alg) then Inl OutOfRange
      else if algBlockOf alg ! q \<noteq> block then Inl AssertionFailed
      else if blockStates (algPartition alg ! block) = [] then Inl AssertionFailed
      else bindE (moveStateToTmp alg q) (\<lambda>(alg', pos). Inr alg'))"

definition makeBlock :: "OLRTAlgorithm \<Rightarrow> nat list \<Rightarrow> nat \<Rightarrow> error + OLRTAlgorithm" where
  "makeBlock alg states' blockIdx =
     (case states' of
        [] \<Rightarrow> Inl AssertionFailed
      | q0 # rest \<Rightarrow>
         (if \<not> q0 < length (algBlockOf alg) then Inl OutOfRange
          else
            let block = algBlockOf alg ! q0 in
            if \<not> block < length (algPartition alg) then Inl OutOfRange
            else
              bindE (foldE (makeBlockStep block) states' alg)
                (\<lambda>alg1.
                   if blockStates (algPartition alg1 ! block) = [] then Inl AssertionFailed
                   else if blockTmp (algPartition alg1 ! block) = [] then Inl AssertionFailed
                   else bindE (pushChildBlock alg1 block blockIdx) (\<lambda>(alg2, newPos). Inr alg2))))"

text \<open>\<open>enqueueToRemove\<close>.\<close>

definition enqueueToRemove :: "OLRTAlgorithm \<Rightarrow> nat \<Rightarrow> nat \<Rightarrow> nat \<Rightarrow> error + OLRTAlgorithm" where
  "enqueueToRemove alg block label q =
     (if \<not> label < length (blockRemove (algPartition alg ! block)) then Inl OutOfRange
      else
        let (l, created) = RemoveList_append (blockRemove (algPartition alg ! block) ! label) q;
            alg1 = alg\<lparr> algPartition := (algPartition alg)
                     [block := (algPartition alg ! block)
                        \<lparr> blockRemove := (blockRemove (algPartition alg ! block))[label := l] \<rparr>] \<rparr>
        in Inr (if created then alg1\<lparr> algQueue := (block, label) # algQueue alg1 \<rparr> else alg1))"

text \<open>\<open>buildPre\<close>: the blocks of the \<open>label\<close>-predecessors of the given states, each
  once.\<close>

definition buildPre :: "OLRTAlgorithm \<Rightarrow> nat list \<Rightarrow> nat \<Rightarrow> error + nat list" where
  "buildPre alg states' label =
     bindE (ring states')
       (\<lambda>elems.
          foldE (\<lambda>q pre.
                   if \<not> q < length (algBlockOf alg) then Inl OutOfRange
                   else
                     let block = algBlockOf alg ! q in
                     if \<not> blockIndex (algPartition alg ! block) < length (algPartition alg) then Inl OutOfRange
                     else if list_ex (\<lambda>p. blockIndex (algPartition alg ! p) = blockIndex (algPartition alg ! block)) pre
                     then Inr pre
                     else Inr (pre @ [block]))
            (concat (map (ltsPre (algLts alg) label) elems)) [])"

text \<open>In \<open>processRemove\<close>, the innermost statement
  \<open>if (!b1->counter().decr(a, pre2)) enqueueToRemove(b1, a, pre2)\<close>.\<close>

definition decrStep :: "nat \<Rightarrow> nat \<Rightarrow> nat \<Rightarrow> OLRTAlgorithm \<Rightarrow> error + OLRTAlgorithm" where
  "decrStep b1 a pre2 alg =
     bindE (decr (algAllocator alg) (counterOf alg b1) a pre2)
       (\<lambda>(al, c, n).
          let alg1 = setCounter alg b1 al c in
          if n = 0 then enqueueToRemove alg1 b1 a pre2 else Inr alg1)"

text \<open>The body of the loops over \<open>preList\<close> and \<open>removeList\<close> in \<open>processRemove\<close>.\<close>

definition pruneStep :: "nat \<Rightarrow> nat \<Rightarrow> OLRTAlgorithm \<Rightarrow> error + OLRTAlgorithm" where
  "pruneStep b1 b2 alg =
     (let i1 = blockIndex (algPartition alg ! b1); i2 = blockIndex (algPartition alg ! b2) in
      if i1 = i2 then Inl AssertionFailed
      else if \<not> relGet (algRelation alg) i1 i2 then Inr alg
      else
        let alg1 = alg\<lparr> algRelation := relSet (algRelation alg) i1 i2 False \<rparr> in
        foldE (\<lambda>a alg2.
                 if \<not> SmartSet_contains (blockInset (algPartition alg2 ! b1)) a then Inr alg2
                 else
                   bindE (ring (blockStates (algPartition alg2 ! b2)))
                     (\<lambda>elems. foldE (decrStep b1 a) (concat (map (ltsPre (algLts alg2) a) elems)) alg2))
          (SmartSet_elements (blockInset (algPartition alg1 ! b2))) alg1)"

text \<open>\<open>processRemove(block, label)\<close>.\<close>

definition processRemove :: "OLRTAlgorithm \<Rightarrow> nat \<Rightarrow> nat \<Rightarrow> error + OLRTAlgorithm" where
  "processRemove alg block label =
     (if \<not> block < length (algPartition alg) then Inl AssertionFailed
      else if \<not> label < length (blockRemove (algPartition alg ! block)) then Inl OutOfRange
      else
        (case blockRemove (algPartition alg ! block) ! label of
           None \<Rightarrow> Inl AssertionFailed
         | Some remove \<Rightarrow>
             let alg1 = alg\<lparr> algPartition := (algPartition alg)
                          [block := (algPartition alg ! block)
                             \<lparr> blockRemove := (blockRemove (algPartition alg ! block))[label := None] \<rparr>] \<rparr>
             in
             bindE (buildPre alg1 (blockStates (algPartition alg1 ! block)) label)
               (\<lambda>preList.
                  bindE (split alg1 remove)
                    (\<lambda>(alg2, removeList).
                       foldE (\<lambda>b1. foldE (pruneStep b1) removeList) preList alg2))))"

text \<open>\<open>isPartition\<close>: no state is in two classes; a state outside the mask is out of
  range.\<close>

fun isPartitionLoop :: "nat \<Rightarrow> nat list \<Rightarrow> nat list \<Rightarrow> error + bool" where
  "isPartitionLoop n [] seen = Inr True"
| "isPartitionLoop n (q # qs) seen =
     (if \<not> q < n then Inl OutOfRange
      else if q \<in> set seen then Inr False
      else isPartitionLoop n qs (q # seen))"

definition isPartition :: "nat list list \<Rightarrow> nat \<Rightarrow> error + bool" where
  "isPartition part n = isPartitionLoop n (concat part) []"

text \<open>\<open>isConsistent\<close>.\<close>

definition isConsistent :: "OLRTAlgorithm \<Rightarrow> bool" where
  "isConsistent alg =
     (length (algPartition alg) = relSize (algRelation alg)
      \<and> list_all (\<lambda>i. relGet (algRelation alg) i i) [0..<length (algPartition alg)])"

text \<open>The constructor \<open>OLRTAlgorithm(lts)\<close>.\<close>

definition newAlgorithm :: "ExplicitLTS \<Rightarrow> error + OLRTAlgorithm" where
  "newAlgorithm lts =
     (if ltsStates lts = 0 then Inl AssertionFailed
      else Inr \<lparr> algLts = lts,
                 algAllocator = \<lparr> store = [], freeList = [] \<rparr>,
                 algPartition = [firstBlock lts],
                 algRelation = emptyRelation,
                 algBlockOf = replicate (ltsStates lts) 0,
                 algQueue = [],
                 algDelta = [],
                 algDelta1 = [],
                 algKey = [],
                 algRange = [] \<rparr>)"

text \<open>In \<open>init\<close>: \<open>_key\<close> and \<open>_range\<close> from \<open>_delta1\<close>.\<close>

definition buildKey :: "ExplicitLTS \<Rightarrow> SmartSet list \<Rightarrow> nat list" where
  "buildKey lts delta1 =
     foldl (\<lambda>k a.
              foldl (\<lambda>k (x, q). k[(a * ltsStates lts + q) mod SIZE_MOD := x]) k
                (zip [0..<length (SmartSet_elements (delta1 ! a))] (SmartSet_elements (delta1 ! a))))
       (replicate (ltsLabels lts * ltsStates lts) (SIZE_MOD - 1)) [0..<ltsLabels lts]"

text \<open>In \<open>init\<close>: the vectors \<open>pre\<close> (labels on which a block can move) and \<open>noPre\<close>
  (blocks that cannot move on a label), and the pruning of the relation with them.
  The loop that fills them reads through a null pointer at a block without states,
  and writes \<open>pre[block->index()]\<close> out of range at an index beyond the partition.\<close>

definition preLabels :: "OLRTAlgorithm \<Rightarrow> nat \<Rightarrow> nat list" where
  "preLabels alg b =
     concat (map (\<lambda>block.
        if blockIndex block = b
        then concat (map (\<lambda>q. filter (\<lambda>a. SmartSet_contains (algDelta1 alg ! a) q)
                                   [0..<ltsLabels (algLts alg)]) (blockStates block))
        else []) (algPartition alg))"

definition noPreBlocks :: "OLRTAlgorithm \<Rightarrow> nat \<Rightarrow> nat list" where
  "noPreBlocks alg a =
     concat (map (\<lambda>block.
        concat (map (\<lambda>q. if SmartSet_contains (algDelta1 alg ! a) q then [] else [blockIndex block])
                  (blockStates block))) (algPartition alg))"

definition clearPair :: "nat \<Rightarrow> nat \<Rightarrow> OLRTAlgorithm \<Rightarrow> error + OLRTAlgorithm" where
  "clearPair b1 b2 alg =
     (if b1 = b2 then Inl AssertionFailed
      else Inr (alg\<lparr> algRelation := relSet (algRelation alg) b1 b2 False \<rparr>))"

definition pruneByLabels :: "OLRTAlgorithm \<Rightarrow> error + OLRTAlgorithm" where
  "pruneByLabels alg =
     (if \<not> list_all (\<lambda>block. blockStates block \<noteq> []
                \<and> (blockIndex block < length (algPartition alg)
                     \<or> \<not> list_ex (\<lambda>q. list_ex (\<lambda>a. SmartSet_contains (algDelta1 alg ! a) q)
                                             [0..<ltsLabels (algLts alg)]) (blockStates block)))
              (algPartition alg)
      then Inl OutOfRange
      else
      let pre = map (preLabels alg) [0..<length (algPartition alg)];
          noPre = map (noPreBlocks alg) [0..<ltsLabels (algLts alg)]
      in foldE (\<lambda>b1. foldE (\<lambda>a. foldE (clearPair b1) (noPre ! a)) (pre ! b1))
           [0..<length (algPartition alg)] alg)"

text \<open>In \<open>init\<close>: the loop over the partition in reverse and over the inset of each
  block, which fills the counters and the first remove lists.\<close>

definition incrStep :: "nat \<Rightarrow> nat \<Rightarrow> nat \<times> nat \<Rightarrow> OLRTAlgorithm \<Rightarrow> error + OLRTAlgorithm" where
  "incrStep i a qr alg =
     (let (q, r) = qr in
      if \<not> r < length (algBlockOf alg) then Inl OutOfRange
      else if relGet (algRelation alg) (blockIndex (algPartition alg ! i))
                (blockIndex (algPartition alg ! (algBlockOf alg ! r)))
      then bindE (incr (algAllocator alg) (counterOf alg i) a q)
             (\<lambda>(al, c). Inr (setCounter alg i al c))
      else Inr alg)"

definition initialRemove :: "OLRTAlgorithm \<Rightarrow> nat \<Rightarrow> nat \<Rightarrow> error + SmartSet" where
  "initialRemove alg i a =
     foldE (\<lambda>b2 s.
              if \<not> relGet (algRelation alg) (blockIndex (algPartition alg ! i)) (blockIndex b2) then Inr s
              else bindE (ring (blockStates b2))
                     (\<lambda>elems. Inr (foldl (\<lambda>s q. SmartSet_remove q s) s
                                      (concat (map (ltsPre (algLts alg) a) elems)))))
       (algPartition alg) (SmartSet_assignFlat (algDelta1 alg ! a))"

definition initBlockLabel :: "nat \<Rightarrow> nat \<Rightarrow> OLRTAlgorithm \<Rightarrow> error + OLRTAlgorithm" where
  "initBlockLabel i a alg =
     (if \<not> a < length (algDelta1 alg) then Inl OutOfRange
      else
        bindE (foldE (incrStep i a)
                 (concat (map (\<lambda>q. map (\<lambda>r. (q, r)) (ltsPost (algLts alg) a q))
                            (SmartSet_elements (algDelta1 alg ! a)))) alg)
          (\<lambda>alg1.
             bindE (initialRemove alg1 i a)
               (\<lambda>s.
                  if s = [] then Inr alg1
                  else if \<not> a < length (blockRemove (algPartition alg1 ! i)) then Inl OutOfRange
                  else Inr (alg1\<lparr> algPartition := (algPartition alg1)
                                    [i := (algPartition alg1 ! i)
                                       \<lparr> blockRemove := (blockRemove (algPartition alg1 ! i))
                                            [a := Some (SmartSet_elements s)] \<rparr>],
                                  algQueue := (i, a) # algQueue alg1 \<rparr>))))"

definition initCounters :: "OLRTAlgorithm \<Rightarrow> error + OLRTAlgorithm" where
  "initCounters alg =
     foldE (\<lambda>i alg1. foldE (initBlockLabel i) (SmartSet_elements (blockInset (algPartition alg1 ! i))) alg1)
       (rev [0..<length (algPartition alg)]) alg"

text \<open>\<open>init(partition, relation)\<close>.\<close>

definition init :: "OLRTAlgorithm \<Rightarrow> nat list list \<Rightarrow> BinaryRelation \<Rightarrow> error + OLRTAlgorithm" where
  "init alg part rel =
     bindE (isPartition part (ltsStates (algLts alg)))
       (\<lambda>ok.
          if \<not> ok then Inl AssertionFailed
          else
            bindE (foldE (\<lambda>i alg1. makeBlock alg1 (part ! i) i) [1..<length part] alg)
              (\<lambda>alg1.
                 let alg2 = alg1\<lparr> algRelation := rel \<rparr> in
                 if \<not> isConsistent alg2 then Inl AssertionFailed
                 else
                   let (d, d1) = buildDelta (algLts alg2);
                       alg3 = alg2\<lparr> algDelta := d, algDelta1 := d1,
                                     algKey := buildKey (algLts alg2) d1,
                                     algRange := map (\<lambda>a. length (SmartSet_elements (d1 ! a)))
                                                   [0..<ltsLabels (algLts alg2)] \<rparr>
                   in
                   bindE (foldE (\<lambda>a alg4. fastSplit alg4 (SmartSet_elements (algDelta1 alg4 ! a)))
                            [0..<ltsLabels (algLts alg3)] alg3)
                     (\<lambda>alg4. bindE (pruneByLabels alg4) initCounters)))"

text \<open>\<open>run()\<close>, on fuel: one unit per popped pair.\<close>

fun run :: "nat \<Rightarrow> OLRTAlgorithm \<Rightarrow> OLRTAlgorithm result" where
  "run 0 alg = (case algQueue alg of [] \<Rightarrow> Some (Inr alg) | t # rest \<Rightarrow> None)"
| "run (Suc fuel) alg =
     (case algQueue alg of
        [] \<Rightarrow> Some (Inr alg)
      | (block, label) # rest \<Rightarrow>
         (case processRemove (alg\<lparr> algQueue := rest \<rparr>) block label of
            Inl e \<Rightarrow> Some (Inl e)
          | Inr alg' \<Rightarrow> run fuel alg'))"

text \<open>\<open>buildResult(result, size)\<close>.\<close>

definition buildResult :: "OLRTAlgorithm \<Rightarrow> nat \<Rightarrow> error + BinaryRelation" where
  "buildResult alg size' =
     (if \<not> size' \<le> length (algBlockOf alg) then Inl OutOfRange
      else Inr \<lparr> relSize = size',
                 relGet = (\<lambda>i j. i < size' \<and> j < size' \<and>
                            relGet (algRelation alg)
                              (blockIndex (algPartition alg ! (algBlockOf alg ! i)))
                              (blockIndex (algPartition alg ! (algBlockOf alg ! j)))) \<rparr>)"

text \<open>\<open>ExplicitLTS::computeSimulation(partition, relation, outputSize)\<close>.\<close>

definition computeSimulation ::
  "ExplicitLTS \<Rightarrow> nat \<Rightarrow> nat list list \<Rightarrow> BinaryRelation \<Rightarrow> nat \<Rightarrow> BinaryRelation result" where
  "computeSimulation lts fuel part rel outputSize =
     (if ltsStates lts = 0 then Some (Inr emptyRelation)
      else
        (case bindE (newAlgorithm lts) (\<lambda>alg. init alg part rel) of
           Inl e \<Rightarrow> Some (Inl e)
         | Inr alg \<Rightarrow>
            (case run fuel alg of
               None \<Rightarrow> None
             | Some (Inl e) \<Rightarrow> Some (Inl e)
             | Some (Inr alg') \<Rightarrow> Some (buildResult alg' outputSize))))"

subsection \<open>Invariants and examples\<close>

text \<open>Every block carries its position in the partition as its index, and every
  state points to a block of the partition.\<close>

definition wellIndexed :: "OLRTAlgorithm \<Rightarrow> bool" where
  "wellIndexed alg =
     (map blockIndex (algPartition alg) = [0..<length (algPartition alg)]
      \<and> list_all (\<lambda>p. p < length (algPartition alg)) (algBlockOf alg))"

text \<open>Two algorithm states with the same block indices, the same blocks of the states
  and the same relation.\<close>

definition sameCore :: "OLRTAlgorithm \<Rightarrow> OLRTAlgorithm \<Rightarrow> bool" where
  "sameCore alg alg' =
     (map blockIndex (algPartition alg') = map blockIndex (algPartition alg)
      \<and> algBlockOf alg' = algBlockOf alg
      \<and> algRelation alg' = algRelation alg)"

text \<open>Three states with a loop on each; every state is a block of its own, and the
  initial relation holds each block and the step from a block to the next one.\<close>

definition loops :: ExplicitLTS where
  "loops = \<lparr> ltsStates = 3, ltsLabels = 1, ltsTransitions = [(0, 0, 0), (1, 0, 1), (2, 0, 2)] \<rparr>"

definition chain :: BinaryRelation where
  "chain = \<lparr> relSize = 3, relGet = (\<lambda>i j. i = j \<or> j = Suc i) \<rparr>"

section \<open>The choice-function generator enumerates a counter\<close>

lemma length_counterVector [simp]: "length (counterVector n k i) = k"
  by (induction k arbitrary: i) auto

lemma counterVector_zero [simp]: "counterVector n k 0 = replicate k 0"
  by (induction k) auto

lemma counterVector_max: "0 < n \<Longrightarrow> counterVector n k (n ^ k - 1) = replicate k (n - 1)"
proof (induction k)
  case 0 show ?case by simp
next
  case (Suc k)
  have pos: "0 < n ^ k" using Suc.prems by simp
  have eq: "n ^ Suc k - 1 = (n - 1) + n * (n ^ k - 1)"
  proof -
    have "n * (n ^ k - 1) = n * n ^ k - n" by (simp add: right_diff_distrib')
    moreover have "n \<le> n * n ^ k" using pos by simp
    ultimately show ?thesis using Suc.prems by simp
  qed
  have "(n - 1 + n * (n ^ k - 1)) mod n = (n - 1) mod n" by (rule mod_mult_self2)
  then have m: "(n ^ Suc k - 1) mod n = n - 1" unfolding eq using Suc.prems by simp
  have "(n - 1 + n * (n ^ k - 1)) div n = (n - 1) div n + (n ^ k - 1)"
    using Suc.prems by (simp only: div_mult_self2)
  then have d: "(n ^ Suc k - 1) div n = n ^ k - 1" unfolding eq using Suc.prems by simp
  show ?case using Suc m d by simp
qed

lemma step_carry:
  assumes n: "0 < n" and i: "i < n * m" and c: "Suc (i mod n) = n"
  shows "Suc i mod (n * m) mod n = 0"
    and "Suc i mod (n * m) div n = Suc (i div n) mod m"
    and "(Suc i = n * m) = (Suc (i div n) = m)"
proof -
  have "n * (i div n) + i mod n = i" by simp
  then have "n * (i div n) + Suc (i mod n) = Suc i" by simp
  then have e: "Suc i = n * Suc (i div n)" unfolding c by simp
  have mm: "Suc i mod (n * m) = n * (Suc (i div n) mod m)"
    by (subst e) (rule mod_mult_mult1)
  show "Suc i mod (n * m) mod n = 0" by (subst mm) simp
  show "Suc i mod (n * m) div n = Suc (i div n) mod m" by (subst mm) (use n in simp)
  show "(Suc i = n * m) = (Suc (i div n) = m)"
    by (subst e) (use n in \<open>simp del: mult_Suc_right\<close>)
qed

lemma step_nocarry:
  assumes n: "0 < n" and i: "i < n * m" and c: "Suc (i mod n) \<noteq> n"
  shows "Suc i mod (n * m) mod n = Suc (i mod n)"
    and "Suc i mod (n * m) div n = i div n"
    and "Suc i \<noteq> n * m"
proof -
  have lt: "Suc (i mod n) < n" using c n
    by (metis Suc_lessI mod_less_divisor)
  have ne: "Suc i \<noteq> n * m"
  proof
    assume "Suc i = n * m"
    then have "Suc i mod n = 0" by simp
    moreover have "Suc i mod n = Suc (i mod n)" using lt by (simp add: mod_Suc)
    ultimately show False by simp
  qed
  then have small: "Suc i < n * m" using i by simp
  show "Suc i \<noteq> n * m" by (rule ne)
  show "Suc i mod (n * m) mod n = Suc (i mod n)" using small lt by (simp add: mod_Suc)
  show "Suc i mod (n * m) div n = i div n" using small lt by (simp add: div_Suc mod_Suc)
qed

lemma getNextLoop_counterVector:
  assumes n: "0 < n" "n < UNSIGNED_MOD"
  shows "i < n ^ Suc k \<Longrightarrow>
    getNextLoop n (pre @ counterVector n (Suc k) i) (length pre) lc =
      Inr (pre @ counterVector n (Suc k) (Suc i mod n ^ Suc k),
           if Suc i = n ^ Suc k then lc - 1 else lc)"
proof (induction k arbitrary: pre i)
  case 0
  then have i: "i < n" by simp
  have "i + 1 < UNSIGNED_MOD" using i n by linarith
  then have v: "(i + 1) mod UNSIGNED_MOD = i + 1" by simp
  show ?case
  proof (cases "Suc i = n")
    case True
    then show ?thesis using i v by (subst getNextLoop.simps) (simp add: Let_def)
  next
    case False
    then have "Suc i < n" using i by simp
    then show ?thesis using i v False by (subst getNextLoop.simps) (simp add: Let_def)
  qed
next
  case (Suc k)
  let ?m = "n ^ Suc k"
  have i: "i < n * ?m" using Suc.prems by simp
  have lt: "i mod n < n" using n by simp
  have "Suc (i mod n) < UNSIGNED_MOD" using lt n by linarith
  then have v: "(i mod n + 1) mod UNSIGNED_MOD = Suc (i mod n)" by simp
  have dlt: "i div n < ?m" using i n
    by (simp add: less_mult_imp_div_less mult.commute)
  let ?rest = "counterVector n (Suc k) (i div n)"
  have cf: "counterVector n (Suc (Suc k)) i = (i mod n) # ?rest" by simp
  show ?case
  proof (cases "Suc (i mod n) = n")
    case True
    have IH: "getNextLoop n ((pre @ [0]) @ ?rest) (length (pre @ [0])) lc =
      Inr ((pre @ [0]) @ counterVector n (Suc k) (Suc (i div n) mod ?m),
           if Suc (i div n) = ?m then lc - 1 else lc)"
      by (rule Suc.IH[OF dlt])
    have res: "counterVector n (Suc (Suc k)) (Suc i mod n ^ Suc (Suc k)) =
        0 # counterVector n (Suc k) (Suc (i div n) mod ?m)"
      using step_carry(1,2)[OF n(1) i True] by simp
    have fin: "(Suc i = n ^ Suc (Suc k)) = (Suc (i div n) = ?m)"
      using step_carry(3)[OF n(1) i True] by simp
    have "getNextLoop n (pre @ counterVector n (Suc (Suc k)) i) (length pre) lc =
        getNextLoop n ((pre @ [0]) @ ?rest) (length (pre @ [0])) lc"
      unfolding cf using True v by (subst getNextLoop.simps) (simp add: Let_def)
    then show ?thesis unfolding IH res fin by simp
  next
    case False
    have res: "counterVector n (Suc (Suc k)) (Suc i mod n ^ Suc (Suc k)) =
        Suc (i mod n) # ?rest"
      using step_nocarry(1,2)[OF n(1) i False] by simp
    have fin: "Suc i \<noteq> n ^ Suc (Suc k)"
      using step_nocarry(3)[OF n(1) i False] by simp
    show ?thesis unfolding res using fin unfolding cf using False v
      by (subst getNextLoop.simps) (simp add: Let_def)
  qed
qed


lemma choiceFunctions_last:
  "lastCnt g = 0 \<Longrightarrow> choiceFunctions fuel g = Some (Inr [])"
  by (cases fuel) (simp_all add: IsLast_def)

lemma choiceFunctions_from:
  assumes n: "0 < n" "n < UNSIGNED_MOD"
  shows "i < n ^ Suc k \<Longrightarrow> n ^ Suc k - i \<le> fuel \<Longrightarrow>
    choiceFunctions fuel \<lparr> currentCf = counterVector n (Suc k) i, cfRange = n, lastCnt = 1 \<rparr> =
      Some (Inr (map (counterVector n (Suc k)) [Suc i..<n ^ Suc k] @ [replicate (Suc k) 0]))"
proof (induction fuel arbitrary: i)
  case 0
  then show ?case by simp
next
  case (Suc fuel)
  let ?N = "n ^ Suc k"
  let ?g = "\<lparr> currentCf = counterVector n (Suc k) i, cfRange = n, lastCnt = 1 \<rparr>"
  have loop: "getNextLoop n (counterVector n (Suc k) i) 0 1 =
      Inr (counterVector n (Suc k) (Suc i mod ?N), if Suc i = ?N then 1 - 1 else 1)"
    using getNextLoop_counterVector[OF n Suc.prems(1), of "[]" 1] by simp
  show ?case
  proof (cases "Suc i = ?N")
    case True
    have nx: "GetNext ?g = Inr (\<lparr> currentCf = replicate (Suc k) 0, cfRange = n, lastCnt = 0 \<rparr>,
        replicate (Suc k) 0)"
      unfolding GetNext_def using loop True by (simp add: IsLast_def del: counterVector.simps replicate.simps)
    have emp: "[Suc i..<?N] = []" using True by simp
    show ?thesis
      unfolding emp
      by (simp add: nx IsLast_def choiceFunctions_last del: counterVector.simps replicate.simps power_Suc)
  next
    case False
    then have lt: "Suc i < ?N" using Suc.prems(1) by simp
    have nx: "GetNext ?g = Inr (\<lparr> currentCf = counterVector n (Suc k) (Suc i), cfRange = n, lastCnt = 1 \<rparr>,
        counterVector n (Suc k) (Suc i))"
      unfolding GetNext_def using loop False lt by (simp add: IsLast_def del: counterVector.simps power_Suc)
    have fu: "?N - Suc i \<le> fuel" using Suc.prems(2) by simp
    have up: "[Suc i..<?N] = Suc i # [Suc (Suc i)..<?N]" using lt by (rule upt_conv_Cons)
    show ?thesis
      unfolding up
      by (simp add: nx IsLast_def Suc.IH[OF lt fu] del: counterVector.simps replicate.simps power_Suc)
  qed
qed

lemma allChoiceFunctions_eq:
  assumes n: "0 < n" "n < UNSIGNED_MOD" and fuel: "n ^ Suc k + 1 \<le> fuel"
  shows "allChoiceFunctions fuel (Suc k) n =
      Some (Inr (map (counterVector n (Suc k)) [0..<n ^ Suc k] @ [replicate (Suc k) 0]))"
proof -
  let ?N = "n ^ Suc k"
  obtain f where f: "fuel = Suc f" and ff: "?N \<le> f" using fuel by (cases fuel) auto
  have pos: "0 < ?N" using n by simp
  have e: "n + UNSIGNED_MOD - 1 = (n - 1) + UNSIGNED_MOD" using n by linarith
  have lt: "n - 1 < UNSIGNED_MOD" using n by linarith
  have "(n + UNSIGNED_MOD - 1) mod UNSIGNED_MOD = ((n - 1) + UNSIGNED_MOD) mod UNSIGNED_MOD"
    by (simp only: e)
  also have "\<dots> = (n - 1) mod UNSIGNED_MOD" by (rule mod_add_self2)
  also have "\<dots> = n - 1" using lt by (rule mod_less)
  finally have init: "(n + UNSIGNED_MOD - 1) mod UNSIGNED_MOD = n - 1" .
  define m where "m = ?N - 1"
  have g0: "newGenerator (Suc k) n =
      Inr \<lparr> currentCf = counterVector n (Suc k) m, cfRange = n, lastCnt = 2 \<rparr>"
    unfolding newGenerator_def init m_def counterVector_max[OF n(1)] using n by simp
  have m: "m < ?N" "Suc m = ?N" using pos by (simp_all add: m_def)
  from getNextLoop_counterVector[OF n m(1), of "[]" 2]
  have loop: "getNextLoop n (counterVector n (Suc k) m) 0 2 =
      Inr (counterVector n (Suc k) 0, 1)"
    unfolding m(2) by (simp del: counterVector.simps power_Suc)
  have nx: "GetNext \<lparr> currentCf = counterVector n (Suc k) m, cfRange = n, lastCnt = 2 \<rparr> =
      Inr (\<lparr> currentCf = counterVector n (Suc k) 0, cfRange = n, lastCnt = 1 \<rparr>,
           counterVector n (Suc k) 0)"
    unfolding GetNext_def by (simp add: loop IsLast_def del: counterVector.simps power_Suc)
  have rest: "choiceFunctions f \<lparr> currentCf = counterVector n (Suc k) 0, cfRange = n, lastCnt = 1 \<rparr> =
      Some (Inr (map (counterVector n (Suc k)) [Suc 0..<?N] @ [replicate (Suc k) 0]))"
    by (rule choiceFunctions_from[OF n pos]) (use ff in simp)
  have up: "[0..<?N] = 0 # [Suc 0..<?N]" using pos by (rule upt_conv_Cons)
  show ?thesis
    unfolding allChoiceFunctions_def g0 f up
    by (simp add: nx rest IsLast_def del: counterVector.simps counterVector_zero replicate.simps power_Suc)
qed


lemma counterVector_bound: "0 < n \<Longrightarrow> x \<in> set (counterVector n k i) \<Longrightarrow> x < n"
  by (induction k arbitrary: i) auto

lemma counterValue_counterVector: "counterValue n (counterVector n k i) = i mod n ^ k"
proof (induction k arbitrary: i)
  case 0 show ?case by simp
next
  case (Suc k)
  have "i mod (n * n ^ k) = n * (i div n mod n ^ k) + i mod n" by (rule mod_mult2_eq)
  then show ?case using Suc by simp
qed

lemma counterVector_counterValue:
  "\<forall>x\<in>set v. x < n \<Longrightarrow> counterVector n (length v) (counterValue n v) = v"
  by (induction v) auto

lemma counterValue_bound:
  "\<forall>x\<in>set v. x < n \<Longrightarrow> 0 < n \<Longrightarrow> counterValue n v < n ^ length v"
proof (induction v)
  case Nil show ?case by simp
next
  case (Cons x v)
  then have c: "Suc (counterValue n v) \<le> n ^ length v" and x: "x < n" by simp_all
  have "n * Suc (counterValue n v) \<le> n * n ^ length v" using c by (rule mult_le_mono2)
  then have "n + n * counterValue n v \<le> n * n ^ length v" by simp
  then show ?case using x by simp
qed

lemma counterVector_inj: "inj_on (counterVector n k) {0..<n ^ k}"
proof (rule inj_on_inverseI)
  fix i assume "i \<in> {0..<n ^ k}"
  then show "counterValue n (counterVector n k i) = i"
    by (simp add: counterValue_counterVector)
qed

lemma counterVector_image:
  assumes n: "0 < n"
  shows "counterVector n k ` {0..<n ^ k} = {v. length v = k \<and> (\<forall>x\<in>set v. x < n)}"
proof (intro equalityI subsetI)
  fix v assume "v \<in> counterVector n k ` {0..<n ^ k}"
  then show "v \<in> {v. length v = k \<and> (\<forall>x\<in>set v. x < n)}"
    using counterVector_bound[OF n] by auto
next
  fix v assume "v \<in> {v. length v = k \<and> (\<forall>x\<in>set v. x < n)}"
  then have l: "length v = k" and b: "\<forall>x\<in>set v. x < n" by simp_all
  have "counterValue n v \<in> {0..<n ^ k}" using counterValue_bound[OF b n] l by simp
  moreover have "counterVector n k (counterValue n v) = v"
    using counterVector_counterValue[OF b] l by simp
  ultimately show "v \<in> counterVector n k ` {0..<n ^ k}" by (metis imageI)
qed

lemma counterVector_colex:
  assumes n: "0 < n"
  shows "i < j \<Longrightarrow> j < n ^ k \<Longrightarrow>
    (rev (counterVector n k i), rev (counterVector n k j)) \<in> lexord {(a, b). a < b}"
proof (induction k arbitrary: i j)
  case 0
  then show ?case by simp
next
  case (Suc k)
  have jd: "j div n < n ^ k" using Suc.prems(2) n
    by (simp add: less_mult_imp_div_less mult.commute)
  have le: "i div n \<le> j div n" using Suc.prems(1) by (simp add: div_le_mono)
  show ?case
  proof (cases "i div n < j div n")
    case True
    have "(rev (counterVector n k (i div n)), rev (counterVector n k (j div n)))
        \<in> lexord {(a, b). a < b}"
      by (rule Suc.IH[OF True jd])
    then show ?thesis by (simp add: lexord_sufI)
  next
    case False
    then have eq: "i div n = j div n" using le by simp
    have "i mod n < j mod n"
    proof -
      have "n * (j div n) + i mod n = i" using eq by (metis mult_div_mod_eq)
      moreover have "n * (j div n) + j mod n = j" by simp
      ultimately have "n * (j div n) + i mod n < n * (j div n) + j mod n"
        using Suc.prems(1) by (simp only:)
      then show ?thesis by (simp only: add_less_cancel_left)
    qed
    then have "([i mod n], [j mod n]) \<in> lexord {(a, b). a < b}" by simp
    then show ?thesis using eq by (simp add: lexord_append_leftI)
  qed
qed

lemma counterVector_sorted:
  assumes n: "0 < n"
  shows "sorted_wrt (\<lambda>u v. (rev u, rev v) \<in> lexord {(a, b). a < b})
           (map (counterVector n k) [0..<n ^ k])"
  unfolding sorted_wrt_iff_nth_less using counterVector_colex[OF n] by simp

text \<open>
  Claim C8, as the code has it. For a length \<open>k \<ge> 1\<close> and a range \<open>n \<ge> 1\<close> (an
  \<open>unsigned\<close>), the loop \<open>while (!IsLast()) GetNext()\<close> stops after \<open>n ^ k + 1\<close>
  calls. The first \<open>n ^ k\<close> results are the vectors of length \<open>k\<close> with entries in
  \<open>[0, n)\<close>, every one of them exactly once, in the order of a counter whose position 0
  moves fastest (lexicographic on the reversed vectors). The last call, the one that
  makes \<open>IsLast\<close> hold, returns the all-zero vector a second time.
\<close>

theorem generator_enumeration:
  assumes "1 \<le> k" and "1 \<le> n" and "n < UNSIGNED_MOD" and "n ^ k + 1 \<le> fuel"
  shows "allChoiceFunctions fuel k n =
           Some (Inr (map (counterVector n k) [0..<n ^ k] @ [replicate k 0]))
         \<and> set (map (counterVector n k) [0..<n ^ k]) = {v. length v = k \<and> (\<forall>x\<in>set v. x < n)}
         \<and> distinct (map (counterVector n k) [0..<n ^ k])
         \<and> sorted_wrt (\<lambda>u v. (rev u, rev v) \<in> lexord {(a, b). a < b})
               (map (counterVector n k) [0..<n ^ k])"
proof -
  obtain k' where k: "k = Suc k'" using assms(1) by (cases k) auto
  have n: "0 < n" using assms(2) by simp
  let ?cfs = "map (counterVector n k) [0..<n ^ k]"
  have "allChoiceFunctions fuel k n = Some (Inr (?cfs @ [replicate k 0]))"
    unfolding k by (rule allChoiceFunctions_eq[OF n assms(3)]) (use assms(4) k in simp)
  moreover have "set ?cfs = {v. length v = k \<and> (\<forall>x\<in>set v. x < n)}"
    using counterVector_image[OF n, of k] by simp
  moreover have "distinct ?cfs"
    using counterVector_inj[of n k] by (simp add: distinct_map)
  moreover note counterVector_sorted[OF n, of k]
  ultimately show ?thesis by blast
qed

lemma counterVector_2: "counterVector n 2 i = [i mod n, i div n mod n]"
  by (simp add: numeral_2_eq_2)

lemma replicate_2: "replicate 2 x = [x, x]"
  by (simp add: numeral_2_eq_2)

lemma upt_4: "[0..<4] = [0, 1, 2, 3]"
  by (simp add: upt_rec)

lemma choiceFunctions_2_2:
  "allChoiceFunctions 5 2 2 = Some (Inr [[0, 0], [1, 0], [0, 1], [1, 1], [0, 0]])"
proof -
  have "allChoiceFunctions 5 (Suc 1) 2 =
      Some (Inr (map (counterVector 2 (Suc 1)) [0..<2 ^ Suc 1] @ [replicate (Suc 1) 0]))"
    by (rule allChoiceFunctions_eq) (simp_all add: UNSIGNED_MOD_def)
  moreover have "Suc 1 = 2" by simp
  ultimately have "allChoiceFunctions 5 2 2 =
      Some (Inr (map (counterVector 2 2) [0..<2 ^ 2] @ [replicate 2 0]))"
    by (simp only:)
  then show ?thesis by (simp add: upt_4 counterVector_2 replicate_2)
qed

text \<open>The enumeration theorem at \<open>k = 2\<close>, \<open>n = 2\<close>, with fuel 5.\<close>

theorem generator_enumeration_witness:
  "allChoiceFunctions 5 2 2 = Some (Inr [[0, 0], [1, 0], [0, 1], [1, 1], [0, 0]])
   \<and> distinct [[0, 0], [1, 0], [0, 1], [1, 1::nat]]"
  using generator_enumeration[of 2 2 5]
  by (simp add: UNSIGNED_MOD_def upt_4 counterVector_2 replicate_2)

text \<open>
  Claim C8 as stated fails: at \<open>k = 2\<close>, \<open>n = 2\<close> the loop visits five vectors, the
  all-zero vector twice, and \<open>[1, 0]\<close> comes before \<open>[0, 1]\<close>.
\<close>

theorem generator_repeats_counterexample:
  "allChoiceFunctions 5 2 2 = Some (Inr [[0, 0], [1, 0], [0, 1], [1, 1], [0, 0]])
   \<and> \<not> distinct [[0, 0], [1, 0], [0, 1], [1, 1], [0, 0::nat]]
   \<and> \<not> sorted_wrt (\<lambda>u v. (u, v) \<in> lexord {(a, b). a < b})
           [[0, 0], [1, 0], [0, 1], [1, 1], [0, 0::nat]]"
  using choiceFunctions_2_2 by simp

section \<open>The downward inclusion functor\<close>

lemma andThen_simps [simp]:
  "andThen None f = None"
  "andThen (Some (Inl e)) f = Some (Inl e)"
  "andThen (Some (Inr x)) f = f x"
  by (simp_all add: andThen_def)

lemma andThen_cong_weak [cong]: "m = m' \<Longrightarrow> andThen m f = andThen m' f"
  by simp

lemma andThen_eq_Return:
  "andThen m f = Some (Inr y) \<longleftrightarrow> (\<exists>x. m = Some (Inr x) \<and> f x = Some (Inr y))"
  by (auto simp: andThen_def split: option.splits sum.splits)

lemma failProcessing_workset [simp]: "workset (failProcessing this) = workset this"
  by (simp add: failProcessing_def)

lemma positionLoop_workset:
  assumes E: "\<And>this p S this' b. expandF this p S = Some (Inr (this', b)) \<Longrightarrow> workset this' = workset this"
  shows "positionLoop expandF this lhsTuple rhsTuple ps = Some (Inr (this', v))
         \<Longrightarrow> workset this' = workset this"
proof (induction ps arbitrary: this)
  case Nil
  then show ?case by (simp add: returnR_def)
next
  case (Cons i ps)
  from Cons.prems obtain this1 holds where
    e: "expandF this (lhsTuple ! i) [rhsTuple ! i] = Some (Inr (this1, holds))" and
    r: "(if \<not> holds then returnR (this1, False)
         else positionLoop expandF this1 lhsTuple rhsTuple ps) = Some (Inr (this', v))"
    by (auto simp: raiseR_def andThen_eq_Return split: if_splits)
  have "workset this' = workset this1"
    using r Cons.IH by (auto simp: returnR_def split: if_splits)
  then show ?case using E[OF e] by simp
qed

lemma biggerTupleLoop_workset:
  assumes E: "\<And>this p S this' b. expandF this p S = Some (Inr (this', b)) \<Longrightarrow> workset this' = workset this"
  shows "biggerTupleLoop expandF this arity lhsTuple rhs = Some (Inr (this', v))
         \<Longrightarrow> workset this' = workset this"
proof (induction rhs arbitrary: this)
  case Nil
  then show ?case by (simp add: returnR_def)
next
  case (Cons rhsTuple rhs)
  from Cons.prems obtain this1 valid where
    p: "positionLoop expandF this lhsTuple rhsTuple [0..<arity] = Some (Inr (this1, valid))" and
    r: "(if valid then returnR (this1, True)
         else biggerTupleLoop expandF this1 arity lhsTuple rhs) = Some (Inr (this', v))"
    by (auto simp: andThen_eq_Return)
  have "workset this' = workset this1"
    using r Cons.IH by (auto simp: returnR_def split: if_splits)
  then show ?case using positionLoop_workset[OF E p] by simp
qed

lemma tuplePosLoop_workset:
  assumes E: "\<And>this p S this' b. expandF this p S = Some (Inr (this', b)) \<Longrightarrow> workset this' = workset this"
  shows "tuplePosLoop expandF this arity lhsTuple rhsVector cf ps = Some (Inr (this', v))
         \<Longrightarrow> workset this' = workset this"
proof (induction ps arbitrary: this)
  case Nil
  then show ?case by (simp add: returnR_def)
next
  case (Cons tuplePos ps)
  show ?case
  proof (cases "rhsSetForTuplePos rhsVector arity tuplePos cf 0 []")
    case (Inl e)
    then show ?thesis using Cons.prems by (simp add: raiseR_def)
  next
    case (Inr rhsSet)
    show ?thesis
    proof (cases "rhsSet = []")
      case True
      then show ?thesis using Cons.prems Inr Cons.IH by simp
    next
      case False
      from Cons.prems Inr False obtain this1 holds where
        e: "expandF this (lhsTuple ! tuplePos) rhsSet = Some (Inr (this1, holds))" and
        r: "(if holds then returnR (this1, True)
             else tuplePosLoop expandF this1 arity lhsTuple rhsVector cf ps) = Some (Inr (this', v))"
        by (auto simp: raiseR_def andThen_eq_Return split: if_splits)
      have "workset this' = workset this1"
        using r Cons.IH by (auto simp: returnR_def split: if_splits)
      then show ?thesis using E[OF e] by simp
    qed
  qed
qed

lemma choiceLoop_workset:
  assumes E: "\<And>this p S this' b. expandF this p S = Some (Inr (this', b)) \<Longrightarrow> workset this' = workset this"
  shows "choiceLoop expandF fuel this arity lhsTuple rhsVector cfGen = Some (Inr (this', v))
         \<Longrightarrow> workset this' = workset this"
proof (induction fuel arbitrary: this cfGen)
  case 0
  then show ?case by (simp add: returnR_def split: if_splits)
next
  case (Suc fuel)
  show ?case
  proof (cases "IsLast cfGen")
    case True
    then show ?thesis using Suc.prems by (simp add: returnR_def)
  next
    case False
    show ?thesis
    proof (cases "GetNext cfGen")
      case (Inl e)
      then show ?thesis using Suc.prems False by (simp add: raiseR_def)
    next
      case (Inr gc)
      obtain cfGen' cf where gc: "gc = (cfGen', cf)" by (cases gc)
      from Suc.prems False Inr gc obtain this1 found where
        t: "tuplePosLoop expandF this arity lhsTuple rhsVector cf [0..<arity] = Some (Inr (this1, found))" and
        r: "(if \<not> found then returnR (this1, False)
             else choiceLoop expandF fuel this1 arity lhsTuple rhsVector cfGen') = Some (Inr (this', v))"
        by (auto simp: andThen_eq_Return)
      have "workset this' = workset this1"
        using r Suc.IH by (auto simp: returnR_def split: if_splits)
      then show ?thesis using tuplePosLoop_workset[OF E t] by simp
    qed
  qed
qed

lemma lhsLoop_workset:
  assumes E: "\<And>this p S this' b. expandF this p S = Some (Inr (this', b)) \<Longrightarrow> workset this' = workset this"
  shows "lhsLoop expandF fuel this arity lhs rhs = Some (Inr this')
         \<Longrightarrow> workset this' = workset this"
proof (induction lhs arbitrary: this)
  case Nil
  then show ?case by (simp add: returnR_def)
next
  case (Cons lhsTuple lhs)
  from Cons.prems obtain this1 valid where
    b: "biggerTupleLoop expandF this arity lhsTuple rhs = Some (Inr (this1, valid))" and
    r: "(if valid then lhsLoop expandF fuel this1 arity lhs rhs
         else
           (case newGenerator (length rhs) (length lhsTuple mod UNSIGNED_MOD) of
              Inl e \<Rightarrow> raiseR e
            | Inr cfGen \<Rightarrow>
                andThen (choiceLoop expandF fuel this1 arity lhsTuple rhs cfGen)
                  (\<lambda>(this2, covered).
                     if covered then lhsLoop expandF fuel this2 arity lhs rhs
                     else returnR (failProcessing this2)))) = Some (Inr this')"
    by (auto simp: raiseR_def andThen_eq_Return split: if_splits)
  have w1: "workset this1 = workset this" by (rule biggerTupleLoop_workset[OF E b])
  show ?case
  proof (cases valid)
    case True
    then show ?thesis using r Cons.IH w1 by simp
  next
    case False
    then obtain cfGen this2 covered where
      c: "choiceLoop expandF fuel this1 arity lhsTuple rhs cfGen = Some (Inr (this2, covered))" and
      r2: "(if covered then lhsLoop expandF fuel this2 arity lhs rhs
            else returnR (failProcessing this2)) = Some (Inr this')"
      using r by (auto simp: raiseR_def andThen_eq_Return split: sum.splits)
    have w2: "workset this2 = workset this1" by (rule choiceLoop_workset[OF E c])
    have "workset this' = workset this2"
      using r2 Cons.IH by (auto simp: returnR_def split: if_splits)
    then show ?thesis using w1 w2 by simp
  qed
qed

lemma functorCall_workset:
  assumes E: "\<And>this p S this' b. expandF this p S = Some (Inr (this', b)) \<Longrightarrow> workset this' = workset this"
    and a: "functorCall expandF fuel this lhs rhs = Some (Inr this')"
  shows "workset this' = workset this"
proof -
  show ?thesis
  proof (cases "lhs \<noteq> [] \<and> length (hd lhs) \<noteq> 0 \<and> rhs \<noteq> []")
    case True
    then have l: "lhsLoop expandF fuel this (length (hd lhs)) lhs rhs = Some (Inr this')"
      using a by (simp add: functorCall_def)
    show ?thesis using lhsLoop_workset[OF E l] by simp
  next
    case False
    then show ?thesis using a
      by (auto simp: functorCall_def returnR_def raiseR_def Let_def split: if_splits)
  qed
qed

lemma Foreach_workset:
  assumes E: "\<And>this p S this' b. expandF this p S = Some (Inr (this', b)) \<Longrightarrow> workset this' = workset this"
  shows "ForeachDownSymbolFromStateAndStateSetDo env expandF fuel opFunc rhsSet cluster = Some (Inr opFunc')
         \<Longrightarrow> workset opFunc' = workset opFunc"
proof (induction cluster arbitrary: opFunc)
  case Nil
  then show ?case by (simp add: returnR_def)
next
  case (Cons sl cluster)
  obtain symbol lhs where sl: "sl = (symbol, lhs)" by (cases sl)
  from Cons.prems sl obtain f1 where
    c: "functorCall expandF fuel opFunc lhs (rightTuples (bigger env) rhsSet symbol) = Some (Inr f1)" and
    r: "(if processingStopped f1 then returnR f1
         else ForeachDownSymbolFromStateAndStateSetDo env expandF fuel f1 rhsSet cluster) = Some (Inr opFunc')"
    by (auto simp: andThen_eq_Return)
  have "workset opFunc' = workset f1"
    using r Cons.IH by (auto simp: returnR_def split: if_splits)
  then show ?case using functorCall_workset[OF E c] by simp
qed

lemma expand_workset:
  "expand env fuel this smallerState biggerStateSet = Some (Inr (this', b))
   \<Longrightarrow> workset this' = workset this"
proof (induction fuel arbitrary: this smallerState biggerStateSet this' b)
  case 0
  then show ?case by simp
next
  case (Suc fuel)
  let ?key = "(smallerState, biggerStateSet)"
  show ?case
  proof (cases "isInWorkset env this ?key \<or> isNoninclusionImplied env this ?key
      \<or> isImpliedByChildren env this ?key \<or> isImpliedByPreorder env ?key")
    case True
    then show ?thesis using Suc.prems by (auto simp: returnR_def Let_def split: if_splits)
  next
    case False
    from Suc.prems False obtain inner where
      f: "ForeachDownSymbolFromStateAndStateSetDo env (\<lambda>this p S. expand env fuel this p S) fuel
            (copyFunctor (this\<lparr> workset := ?key # workset this \<rparr>))
            biggerStateSet (smaller env smallerState) = Some (Inr inner)" and
      r: "this' = processFoundInclusion env (this\<lparr> workset := remove1 ?key (workset inner),
                                    nonIncl := nonIncl inner \<rparr>) smallerState biggerStateSet
        \<or> this' = processFoundNoninclusion env (this\<lparr> workset := remove1 ?key (workset inner),
                                    nonIncl := nonIncl inner \<rparr>) smallerState biggerStateSet"
      by (auto simp: andThen_eq_Return returnR_def raiseR_def Let_def split: if_splits)
    have "workset inner = workset (copyFunctor (this\<lparr> workset := ?key # workset this \<rparr>))"
      by (rule Foreach_workset[OF _ f]) (rule Suc.IH)
    then have "workset inner = ?key # workset this" by (simp add: copyFunctor_def)
    then show ?thesis using r
      by (auto simp: processFoundInclusion_def processFoundNoninclusion_def)
  qed
qed


text \<open>
  Claim C10. A call of \<open>expand\<close> that returns leaves the shared workset as it found
  it. When one of the four filters fires the functor is returned untouched. Otherwise
  the exploration runs on the workset with the pair \<open>(p, S)\<close> added, returns with
  exactly that workset, and the one entry is erased again before \<open>expand\<close> returns.
\<close>

theorem expand_restores_workset:
  assumes "expand env (Suc fuel) this p S = Some (Inr (this', b))"
  shows "workset this' = workset this
    \<and> (isInWorkset env this (p, S) \<or> isNoninclusionImplied env this (p, S)
        \<or> isImpliedByChildren env this (p, S) \<or> isImpliedByPreorder env (p, S)
        \<longrightarrow> this' = this)
    \<and> (\<not> (isInWorkset env this (p, S) \<or> isNoninclusionImplied env this (p, S)
           \<or> isImpliedByChildren env this (p, S) \<or> isImpliedByPreorder env (p, S))
        \<longrightarrow> (\<exists>innerFctor.
              ForeachDownSymbolFromStateAndStateSetDo env (\<lambda>this p S. expand env fuel this p S) fuel
                (copyFunctor (this\<lparr> workset := (p, S) # workset this \<rparr>)) S (smaller env p)
                = Some (Inr innerFctor)
              \<and> workset innerFctor = (p, S) # workset this
              \<and> workset this' = remove1 (p, S) (workset innerFctor)))"
proof (intro conjI impI)
  show "workset this' = workset this" using assms by (rule expand_workset)
next
  assume "isInWorkset env this (p, S) \<or> isNoninclusionImplied env this (p, S)
        \<or> isImpliedByChildren env this (p, S) \<or> isImpliedByPreorder env (p, S)"
  then show "this' = this" using assms by (auto simp: returnR_def Let_def split: if_splits)
next
  assume nf: "\<not> (isInWorkset env this (p, S) \<or> isNoninclusionImplied env this (p, S)
           \<or> isImpliedByChildren env this (p, S) \<or> isImpliedByPreorder env (p, S))"
  from assms nf obtain inner where
    f: "ForeachDownSymbolFromStateAndStateSetDo env (\<lambda>this p S. expand env fuel this p S) fuel
          (copyFunctor (this\<lparr> workset := (p, S) # workset this \<rparr>)) S (smaller env p)
          = Some (Inr inner)" and
    r: "this' = processFoundInclusion env (this\<lparr> workset := remove1 (p, S) (workset inner),
                                  nonIncl := nonIncl inner \<rparr>) p S
      \<or> this' = processFoundNoninclusion env (this\<lparr> workset := remove1 (p, S) (workset inner),
                                  nonIncl := nonIncl inner \<rparr>) p S"
    by (auto simp: andThen_eq_Return returnR_def raiseR_def Let_def split: if_splits)
  have "workset inner = workset (copyFunctor (this\<lparr> workset := (p, S) # workset this \<rparr>))"
    by (rule Foreach_workset[OF _ f]) (rule expand_workset)
  then have w: "workset inner = (p, S) # workset this" by (simp add: copyFunctor_def)
  have "workset this' = remove1 (p, S) (workset inner)"
    using r by (auto simp: processFoundInclusion_def processFoundNoninclusion_def)
  then show "\<exists>innerFctor.
      ForeachDownSymbolFromStateAndStateSetDo env (\<lambda>this p S. expand env fuel this p S) fuel
        (copyFunctor (this\<lparr> workset := (p, S) # workset this \<rparr>)) S (smaller env p)
        = Some (Inr innerFctor)
      \<and> workset innerFctor = (p, S) # workset this
      \<and> workset this' = remove1 (p, S) (workset innerFctor)"
    using f w by blast
qed

lemmas down_eval = identityEnv_def autA_def autB_def freshFunctor_def returnR_def raiseR_def
    isInWorkset_def isNoninclusionImplied_def isImpliedByChildren_def isImpliedByPreorder_def
    Antichain2C_contains_def Antichain2C_lookup_def Antichain2C_insert_def Antichain2C_refine_def
    SetComparerSmaller_def SetComparerBigger_def copyFunctor_def functorCall_def
    rightTuples_def tuplesOf_def failProcessing_def processFoundInclusion_def processFoundNoninclusion_def
    newGenerator_def GetNext_def IsLast_def UNSIGNED_MOD_def Let_def

lemma expand_example_run:
  "expand (identityEnv autA autB) (Suc (Suc 0)) (freshFunctor\<lparr> workset := [(7, [8])] \<rparr>) 1 [11] =
     Some (Inr (\<lparr> processingStopped = False, inclusionHolds = True, workset = [(7, [8])],
                  nonIncl = [(1, [[11]])], childrenCache = [] \<rparr>, False))"
  by (simp add: down_eval)

text \<open>The workset theorem on a run that passes the filters and recurses.\<close>

theorem expand_restores_workset_witness:
  "expand (identityEnv autA autB) (Suc (Suc 0)) (freshFunctor\<lparr> workset := [(7, [8])] \<rparr>) 1 [11] =
     Some (Inr (\<lparr> processingStopped = False, inclusionHolds = True, workset = [(7, [8])],
                  nonIncl = [(1, [[11]])], childrenCache = [] \<rparr>, False))
   \<and> workset \<lparr> processingStopped = False, inclusionHolds = True, workset = [(7, [8])],
                 nonIncl = [(1, [[11]])], childrenCache = [] \<rparr>
       = workset (freshFunctor\<lparr> workset := [(7, [8])] \<rparr>)
   \<and> \<not> isInWorkset (identityEnv autA autB) (freshFunctor\<lparr> workset := [(7, [8])] \<rparr>) (1, [11])"
  using expand_restores_workset[OF expand_example_run] expand_example_run
  by (simp add: down_eval)

text \<open>
  Claim C7. When the small side's tuple set holds the nullary tuple, \<open>operator()\<close>
  returns at once: with an empty bigger side it calls \<open>failProcessing\<close>, so that
  \<open>inclusionHolds_\<close> is false (and processing is stopped); with a non-empty bigger
  side it returns the functor unchanged. The hypotheses are the assertions of the
  nullary branch.
\<close>

theorem nullary_transition:
  assumes "lhs \<noteq> []" and "hd lhs = []" and "length lhs = 1"
    and "rhs \<noteq> [] \<longrightarrow> length rhs = 1 \<and> hd rhs = []"
  shows "\<exists>this'. functorCall expandF fuel this lhs rhs = Some (Inr this')
     \<and> (rhs = [] \<longrightarrow> this' = failProcessing this \<and> \<not> inclusionHolds this' \<and> processingStopped this')
     \<and> (rhs \<noteq> [] \<longrightarrow> this' = this)"
  using assms by (auto simp: functorCall_def returnR_def raiseR_def failProcessing_def)

text \<open>The nullary case on the leaf \<open>a\<close>, once with no bigger transition and once
  with one.\<close>

theorem nullary_transition_witness:
  "functorCall (expand (identityEnv autA autB) 0) 0 freshFunctor [[]] []
     = Some (Inr (failProcessing freshFunctor))
   \<and> \<not> inclusionHolds (failProcessing freshFunctor)
   \<and> functorCall (expand (identityEnv autA autB) 0) 0 freshFunctor [[]] [[]]
     = Some (Inr freshFunctor)"
  using nullary_transition[of "[[]]" "[]" "expand (identityEnv autA autB) 0" 0 freshFunctor]
    nullary_transition[of "[[]]" "[[]]" "expand (identityEnv autA autB) 0" 0 freshFunctor]
  by simp

lemma getNextLoop_wrap:
  "index < length cf \<Longrightarrow> (cf ! index + 1) mod UNSIGNED_MOD = rng \<Longrightarrow> index + 1 = length cf
   \<Longrightarrow> getNextLoop rng cf index lc = Inr (cf[index := 0], lc - 1)"
  by (subst getNextLoop.simps) (simp add: Let_def)

lemma getNextLoop_carry:
  "index < length cf \<Longrightarrow> (cf ! index + 1) mod UNSIGNED_MOD = rng \<Longrightarrow> index + 1 \<noteq> length cf
   \<Longrightarrow> getNextLoop rng cf index lc = getNextLoop rng (cf[index := 0]) (index + 1) lc"
  by (subst getNextLoop.simps) (simp add: Let_def)

lemma getNextLoop_stop:
  "index < length cf \<Longrightarrow> (cf ! index + 1) mod UNSIGNED_MOD \<noteq> rng
   \<Longrightarrow> getNextLoop rng cf index lc = Inr (cf[index := (cf ! index + 1) mod UNSIGNED_MOD], lc)"
  by (subst getNextLoop.simps) (simp add: Let_def)

lemmas getNextLoop_eval = getNextLoop_wrap getNextLoop_carry getNextLoop_stop

lemma isInWorkset_iff:
  "isInWorkset env this (p, S) \<longleftrightarrow>
     (\<exists>(p', S') \<in> set (workset this).
        preorder env p p' \<and> (\<forall>s \<in> set S. \<exists>s' \<in> set S'. preorder env s s'))"
  by (simp add: isInWorkset_def SetComparerSmaller_def list_ex_iff list_all_iff case_prod_beta)

lemma SetComparerSmaller_identity:
  "SetComparerSmaller (=) lhs rhs \<longleftrightarrow> set rhs \<subseteq> set lhs"
  by (auto simp: SetComparerSmaller_def list_ex_iff list_all_iff)

lemma SetComparerBigger_identity:
  "SetComparerBigger (=) lhs rhs \<longleftrightarrow> set lhs \<subseteq> set rhs"
  by (auto simp: SetComparerBigger_def list_ex_iff list_all_iff)

text \<open>
  Claim C3 fails on the code. \<open>isInWorkset\<close> calls
  \<open>smallerComparer_(stateSetPair.second, elem.second)\<close>, and \<open>SetComparerSmaller\<close>
  asks that every state of its second argument be dominated by a state of its first
  (\<open>isInWorkset_iff\<close>): the filter fires for \<open>S \<sqsubseteq> S'\<close>, not for \<open>S' \<sqsubseteq> S\<close>. Under the
  identity preorder \<open>SetComparerSmaller lhs rhs\<close> is \<open>rhs \<subseteq> lhs\<close>, the opposite of
  \<open>InclACComparer\<close> of the same header (\<open>lhs \<subseteq> rhs\<close>).
  With \<open>(1, {11})\<close> in the workset, \<open>expand(1, {10, 11})\<close> is not suppressed although
  \<open>{11} \<sqsubseteq> {10, 11}\<close>: it recurses and returns false. With \<open>(1, {11, 12})\<close> in the
  workset, \<open>expand(1, {12})\<close> is suppressed and returns true, although state 1 accepts
  the leaf \<open>a\<close> and state 12 does not.
\<close>

theorem workset_filter_misses_dominated_pair:
  "isInWorkset (identityEnv autA autB) (freshFunctor\<lparr> workset := [(1, [11])] \<rparr>) (1, [10, 11]) = False
   \<and> expand (identityEnv autA autB) (Suc (Suc 0)) (freshFunctor\<lparr> workset := [(1, [11])] \<rparr>) 1 [10, 11] =
       Some (Inr (\<lparr> processingStopped = False, inclusionHolds = True, workset = [(1, [11])],
                    nonIncl = [(1, [[10, 11]])], childrenCache = [] \<rparr>, False))
   \<and> isInWorkset (identityEnv autA autB) (freshFunctor\<lparr> workset := [(1, [11, 12])] \<rparr>) (1, [12]) = True
   \<and> expand (identityEnv autA autB) (Suc (Suc 0)) (freshFunctor\<lparr> workset := [(1, [11, 12])] \<rparr>) 1 [12] =
       Some (Inr (freshFunctor\<lparr> workset := [(1, [11, 12])] \<rparr>, True))
   \<and> accepts autA 1 (Node 1 []) \<and> \<not> accepts autB 12 (Node 1 [])"
  by (simp add: down_eval)

text \<open>Every tree that \<open>autA\<close> accepts from state 0 is accepted by \<open>autB\<close> from
  state 10.\<close>

lemma autA_included_in_autB: "{t. accepts autA 0 t} \<subseteq> {t. accepts autB 10 t}"
proof
  fix t assume "t \<in> {t. accepts autA 0 t}"
  then have a: "accepts autA 0 t" by simp
  obtain f ts where t: "t = Node f ts" by (cases t)
  from a t have f: "f = 0" by (auto simp: tuplesOf_def autA_def split: if_splits)
  from a t f obtain t1 where ts: "ts = [t1]" and a1: "accepts autA 1 t1"
    by (auto simp: tuplesOf_def autA_def list_all2_Cons1)
  obtain f1 ts1 where t1: "t1 = Node f1 ts1" by (cases t1)
  from a1 t1 have "ts1 = [] \<and> (f1 = 1 \<or> f1 = 2)"
    by (auto simp: tuplesOf_def autA_def split: if_splits)
  then have "accepts autB 11 t1 \<or> accepts autB 12 t1"
    using t1 by (auto simp: tuplesOf_def autB_def)
  then have "accepts autB 10 t" using t f ts by (auto simp: tuplesOf_def autB_def)
  then show "t \<in> {t. accepts autB 10 t}" by simp
qed

lemma downward_example_run:
  "expand (identityEnv autA autB) (Suc (Suc 0)) freshFunctor 0 [10] =
     Some (Inr (\<lparr> processingStopped = False, inclusionHolds = True, workset = [],
                  nonIncl = [(1, [[11], [12]]), (0, [[10]])], childrenCache = [] \<rparr>, False))"
  by (simp add: down_eval getNextLoop_eval)

section \<open>Copy-on-write of the shared counter rows\<close>

lemma sizeDec_pos: "0 < x \<Longrightarrow> x < SIZE_MOD \<Longrightarrow> sizeDec x = x - 1"
proof -
  assume x: "0 < x" "x < SIZE_MOD"
  then have e: "x + SIZE_MOD - 1 = (x - 1) + SIZE_MOD" by linarith
  have "(x - 1 + SIZE_MOD) mod SIZE_MOD = (x - 1) mod SIZE_MOD" by (rule mod_add_self2)
  also have "\<dots> = x - 1" using x by (intro mod_less) linarith
  finally show ?thesis unfolding sizeDec_def e .
qed

lemma allocate_fresh:
  assumes "allocate al = (a', al')" and "a < length (store al)" and "a \<notin> set (freeList al)"
    and "\<forall>x\<in>set (freeList al). x < length (store al)"
  shows "a' \<noteq> a \<and> a' < length (store al') \<and> length (store al) \<le> length (store al')
         \<and> store al' ! a = store al ! a"
  using assms by (auto simp: allocate_def nth_append split: list.splits)

lemma clone_row: "Suc 0 < length row \<Longrightarrow>
  take (Suc 0) ((resize v (length row))[0 := Suc 0]) @ drop (Suc 0) row = Suc 0 # tl row"
  by (cases row; cases v) (auto simp: resize_def drop_Suc)

text \<open>
  Claim C9. Let the row of a label be shared (\<open>refCount > 1\<close>), live, and let the
  assertions of \<open>decr\<close> hold. Then \<open>decr\<close> returns, and the shared vector changes
  only in its \<open>refCount\<close>, which goes down by one: \<open>master\<close> and all counts of the
  shared row are as before. If \<open>master\<close> was 1, the caller's pointer is dropped and
  0 is returned; otherwise the caller's pointer moves to a different, freshly allocated
  row that holds the copy with \<open>refCount\<close> 1, and the two decrements are made there.
\<close>

theorem decr_shared_row:
  assumes lab: "label < length (data c)"
    and ptr: "data c ! label = Some a"
    and live: "a < length (store al)" "a \<notin> set (freeList al)"
    and wf: "\<forall>x\<in>set (freeList al). x < length (store al)"
    and slot: "slotOf c label state = Inr slot" "slot < length (store al ! a)"
    and len: "1 < length (store al ! a)"
    and shared: "1 < store al ! a ! 0" "store al ! a ! 0 < SIZE_MOD"
    and single: "store al ! a ! 1 = 1 \<longrightarrow> store al ! a ! slot = 1"
  shows "\<exists>al' c' n. decr al c label state = Inr (al', c', n)
     \<and> store al' ! a = (store al ! a)[0 := store al ! a ! 0 - 1]
     \<and> tl (store al' ! a) = tl (store al ! a)
     \<and> data c' ! label \<noteq> Some a
     \<and> (store al ! a ! 1 = 1 \<longrightarrow> data c' ! label = None \<and> n = 0)
     \<and> (store al ! a ! 1 \<noteq> 1 \<longrightarrow>
          (\<exists>a'. data c' ! label = Some a' \<and> a' \<noteq> a
             \<and> store al' ! a' =
                 ((1 # tl (store al ! a))[1 := sizeDec (store al ! a ! 1)])
                   [slot := sizeDec (((1 # tl (store al ! a))[1 := sizeDec (store al ! a ! 1)]) ! slot)]))"
proof -
  let ?row = "store al ! a"
  have dec: "sizeDec (?row ! 0) = ?row ! 0 - 1" using shared by (intro sizeDec_pos) simp_all
  have tl_upd: "tl (?row[0 := x]) = tl ?row" for x by (cases ?row) simp_all
  show ?thesis
  proof (cases "?row ! 1 = 1")
    case True
    then have "decr al c label state =
        Inr (al\<lparr> store := (store al)[a := ?row[0 := sizeDec (?row ! 0)]] \<rparr>,
             c\<lparr> data := (data c)[label := None] \<rparr>, 0)"
      using lab ptr live slot len shared single by (simp add: decr_def Let_def)
    then show ?thesis using True lab live dec tl_upd by simp
  next
    case False
    let ?al1 = "al\<lparr> store := (store al)[a := ?row[0 := sizeDec (?row ! 0)]] \<rparr>"
    obtain a' al2 where al: "allocate ?al1 = (a', al2)" by (cases "allocate ?al1")
    have fresh: "a' \<noteq> a \<and> a' < length (store al2) \<and> length (store ?al1) \<le> length (store al2)
         \<and> store al2 ! a = store ?al1 ! a"
      by (rule allocate_fresh[OF al]) (use live wf in simp_all)
    define row4 where "row4 =
      ((1 # tl ?row)[1 := sizeDec (?row ! 1)])
        [slot := sizeDec (((1 # tl ?row)[1 := sizeDec (?row ! 1)]) ! slot)]"
    have c1: "(Suc 0 # tl ?row) ! Suc 0 = ?row ! Suc 0" using len by (cases ?row) auto
    have d: "decr al c label state =
        Inr (al2\<lparr> store := ((store al2)[a' := 1 # tl ?row])[a' := row4] \<rparr>,
             c\<lparr> data := (data c)[label := Some a'] \<rparr>, row4 ! slot)"
      using lab ptr live slot len shared False al fresh c1
      by (simp add: decr_def Let_def clone_row row4_def del: list_update.simps)
    have s1: "store (al2\<lparr> store := ((store al2)[a' := 1 # tl ?row])[a' := row4] \<rparr>) ! a
        = ?row[0 := ?row ! 0 - 1]"
      using fresh dec live by simp
    have s2: "store (al2\<lparr> store := ((store al2)[a' := 1 # tl ?row])[a' := row4] \<rparr>) ! a' = row4"
      using fresh by simp
    have s3: "data (c\<lparr> data := (data c)[label := Some a'] \<rparr>) ! label = Some a'"
      using lab by simp
    show ?thesis
      unfolding d
      apply (intro exI conjI)
           apply (rule refl)
          apply (rule s1)
         apply (simp only: s1 tl_upd)
        apply (simp only: s3) apply (use fresh in simp)
       apply (use False in simp)
      apply (intro impI exI[of _ a'] conjI)
        apply (rule s3)
       apply (use fresh in simp)
      apply (simp only: s2)
      apply (simp only: row4_def)
      done
  qed
qed

text \<open>The theorem on a row that two counters share: \<open>refCount = 2\<close>,
  \<open>master = 2\<close>, one count each for the two states.\<close>

theorem decr_shared_row_witness:
  "1 < store sharedAllocator ! 0 ! 0
   \<and> decr sharedAllocator sharedCounter 0 1 =
       Inr (\<lparr> store = [[1, 2, 1, 1], [1, 1, 1, 0]], freeList = [] \<rparr>,
            sharedCounter\<lparr> data := [Some 1] \<rparr>, 0)
   \<and> (\<exists>al' c' n. decr sharedAllocator sharedCounter 0 1 = Inr (al', c', n)
        \<and> store al' ! 0 = [1, 2, 1, 1] \<and> data c' ! 0 \<noteq> Some 0)"
proof -
  have e: "decr sharedAllocator sharedCounter 0 1 =
       Inr (\<lparr> store = [[1, 2, 1, 1], [1, 1, 1, 0]], freeList = [] \<rparr>,
            sharedCounter\<lparr> data := [Some 1] \<rparr>, 0)"
    by (simp add: decr_def slotOf_def sharedAllocator_def sharedCounter_def SIZE_MOD_def
        sizeDec_def allocate_def resize_def Let_def)
  have "\<exists>al' c' n. decr sharedAllocator sharedCounter 0 1 = Inr (al', c', n)
     \<and> store al' ! 0 = (store sharedAllocator ! 0)[0 := store sharedAllocator ! 0 ! 0 - 1]
     \<and> tl (store al' ! 0) = tl (store sharedAllocator ! 0)
     \<and> data c' ! 0 \<noteq> Some 0
     \<and> (store sharedAllocator ! 0 ! 1 = 1 \<longrightarrow> data c' ! 0 = None \<and> n = 0)
     \<and> (store sharedAllocator ! 0 ! 1 \<noteq> 1 \<longrightarrow>
          (\<exists>a'. data c' ! 0 = Some a' \<and> a' \<noteq> 0
             \<and> store al' ! a' =
                 ((1 # tl (store sharedAllocator ! 0))[1 := sizeDec (store sharedAllocator ! 0 ! 1)])
                   [3 := sizeDec (((1 # tl (store sharedAllocator ! 0))
                       [1 := sizeDec (store sharedAllocator ! 0 ! 1)]) ! 3)]))"
    by (rule decr_shared_row)
       (simp_all add: slotOf_def sharedAllocator_def sharedCounter_def SIZE_MOD_def)
  then show ?thesis using e by (simp add: sharedAllocator_def)
qed


section \<open>The upward inclusion checker\<close>

lemma forEachStep_Refute:
  "forEachStep body xs s = Refute d \<Longrightarrow> \<exists>x\<in>set xs. \<exists>s'. body x s' = Refute d"
proof (induction xs arbitrary: s)
  case Nil
  then show ?case by simp
next
  case (Cons x xs)
  then show ?case by (cases "body x s") auto
qed

lemma postInsert_not_Refute: "postInsert inp t pa \<noteq> Refute d"
  by (cases pa) (simp add: postInsert_def Let_def)

lemma leafPostInsert_not_Refute: "leafPostInsert inp t pa \<noteq> Refute d"
  by (simp add: leafPostInsert_def postInsert_not_Refute)

lemma addProcessed_not_Refute: "addProcessed inp p ptr st \<noteq> Refute d"
  by (simp add: addProcessed_def Let_def)

lemma seedTransition_Refute:
  "seedTransition inp acc tmp t st = Refute d \<Longrightarrow> d = leavesNotCovered"
  by (auto simp: seedTransition_def addProcessed_not_Refute split: if_splits)

lemma seedSymbol_Refute: "seedSymbol inp symbol st = Refute d \<Longrightarrow> d = leavesNotCovered"
proof -
  assume a: "seedSymbol inp symbol st = Refute d"
  show ?thesis
  proof (cases "forEachStep (leafPostInsert inp) (biggerLeaves inp ! symbol) ([], False)")
    case (Abort e)
    then show ?thesis using a by (simp add: seedSymbol_def)
  next
    case (Refute d')
    then show ?thesis using forEachStep_Refute[OF Refute] leafPostInsert_not_Refute by blast
  next
    case (Continue pa)
    obtain post acc where pa: "pa = (post, acc)" by (cases pa)
    from a Continue pa have
      "forEachStep (seedTransition inp acc (sort post)) (smallerLeaves inp ! symbol) st = Refute d"
      by (simp add: seedSymbol_def)
    from forEachStep_Refute[OF this] show ?thesis using seedTransition_Refute by blast
  qed
qed

lemma seedLeaves_Refute:
  "seedLeaves inp = Refute d \<Longrightarrow> d = sizesIncompatible \<or> d = leavesNotCovered"
proof -
  assume a: "seedLeaves inp = Refute d"
  show ?thesis
  proof (cases "length (biggerLeaves inp) < length (smallerLeaves inp)")
    case True
    then show ?thesis using a by (simp add: seedLeaves_def)
  next
    case False
    then have "forEachStep (seedSymbol inp) [0..<length (smallerLeaves inp)]
        \<lparr> processed = [], nextSet = [] \<rparr> = Refute d"
      using a by (simp add: seedLeaves_def)
    from forEachStep_Refute[OF this] show ?thesis using seedSymbol_Refute by blast
  qed
qed

lemma choiceStep_Refute:
  "choiceStep inp symbol t cv temporary = Refute d \<Longrightarrow> d = smallerAccepts"
proof -
  assume a: "choiceStep inp symbol t cv temporary = Refute d"
  show ?thesis
  proof (cases cv)
    case Nil
    then show ?thesis using a by (simp add: choiceStep_def biggerTransitionsOf_def)
  next
    case (Cons Q0 rest)
    let ?bt = "intersectSlots inp symbol 1 rest (evalTransitions inp symbol 0 Q0)"
    show ?thesis
    proof (cases "forEachStep (postInsert inp) ?bt ([], False)")
      case (Abort e)
      then show ?thesis using a Cons by (simp add: choiceStep_def biggerTransitionsOf_def)
    next
      case (Refute d')
      then show ?thesis using forEachStep_Refute[OF Refute] postInsert_not_Refute by blast
    next
      case (Continue pa)
      obtain post acc where pa: "pa = (post, acc)" by (cases pa)
      show ?thesis using a Cons Continue pa
        by (auto simp: choiceStep_def biggerTransitionsOf_def Let_def split: if_splits)
    qed
  qed
qed

lemma promote_not_Refute: "promote inp temporary st \<noteq> Refute d"
proof
  assume "promote inp temporary st = Refute d"
  from forEachStep_Refute[OF this[unfolded promote_def]]
  show False using addProcessed_not_Refute by (auto simp: case_prod_beta)
qed

lemma processTransition_Refute:
  "processTransition inp Q symbol j t st = Refute d \<Longrightarrow> d = smallerAccepts"
proof -
  assume a: "processTransition inp Q symbol j t st = Refute d"
  show ?thesis
  proof (cases "buildChoiceVector (processed st) Q (children t) j")
    case None
    then show ?thesis using a by (simp add: processTransition_def split: if_splits)
  next
    case (Some choiceLists)
    show ?thesis
    proof (cases "forEachStep (choiceStep inp symbol t) (allChoices choiceLists) []")
      case (Abort e)
      then show ?thesis using a Some by (simp add: processTransition_def split: if_splits)
    next
      case (Refute d')
      then have "d' = d" using a Some by (simp add: processTransition_def split: if_splits)
      then show ?thesis using forEachStep_Refute[OF Refute] choiceStep_Refute by blast
    next
      case (Continue temporary)
      then show ?thesis using a Some promote_not_Refute
        by (simp add: processTransition_def split: if_splits)
    qed
  qed
qed

lemma processSymbol_Refute:
  "processSymbol inp Q ss st = Refute d \<Longrightarrow> d = smallerAccepts"
proof -
  assume a: "processSymbol inp Q ss st = Refute d"
  obtain symbol slots where ss: "ss = (symbol, slots)" by (cases ss)
  from a ss have "forEachStep
        (\<lambda>(j, smallerTransitions) s.
           forEachStep (processTransition inp Q symbol j) smallerTransitions s)
        (zip [0..<length slots] slots) st = Refute d"
    by (simp add: processSymbol_def)
  from forEachStep_Refute[OF this] obtain j ts s' where
    "forEachStep (processTransition inp Q symbol j) ts s' = Refute d" by auto
  from forEachStep_Refute[OF this] show ?thesis using processTransition_Refute by blast
qed

lemma processPopped_Refute:
  "processPopped inp q Q st = Refute d \<Longrightarrow> d = smallerAccepts"
proof -
  assume a: "processPopped inp q Q st = Refute d"
  then have "forEachStep (processSymbol inp Q)
      (zip [0..<length (smallerIndex inp ! q)] (smallerIndex inp ! q)) st = Refute d"
    by (simp add: processPopped_def Let_def split: if_splits)
  from forEachStep_Refute[OF this] show ?thesis using processSymbol_Refute by blast
qed

lemma mainLoop_verdict:
  "mainLoop inp fuel st = Some (Inr (b, d)) \<Longrightarrow>
     (b \<longrightarrow> d = inclusionProved) \<and> (\<not> b \<longrightarrow> d = smallerAccepts)"
proof (induction fuel arbitrary: st)
  case 0
  then show ?case by (auto split: list.splits)
next
  case (Suc fuel)
  show ?case
  proof (cases "nextSet st")
    case Nil
    then show ?thesis using Suc.prems by auto
  next
    case (Cons e rest)
    obtain q Q where e: "e = (q, Q)" by (cases e)
    show ?thesis
    proof (cases "processPopped inp q Q (st\<lparr> nextSet := rest \<rparr>)")
      case (Abort x)
      then show ?thesis using Suc.prems Cons e by simp
    next
      case (Refute d')
      then show ?thesis using Suc.prems Cons e processPopped_Refute[OF Refute] by auto
    next
      case (Continue st')
      then have "mainLoop inp fuel st' = Some (Inr (b, d))" using Suc.prems Cons e by simp
      then show ?thesis by (rule Suc.IH)
    qed
  qed
qed

text \<open>
  Claim C5. A run of \<open>checkInternal\<close> that returns a verdict has not raised an error.
  With the verdict false the description is one of the three refutations:
  "leaves not covered", "smaller accepts, bigger does not" or "leaves set sizes
  incompatible". With the verdict true the description is "Inclusion proved!", which
  names no refutation.
\<close>

theorem refutation_reasons:
  assumes "checkInternal inp fuel = Some (Inr (b, d))"
  shows "(b \<longrightarrow> d = inclusionProved)
       \<and> (\<not> b \<longrightarrow> d = leavesNotCovered \<or> d = smallerAccepts \<or> d = sizesIncompatible)"
proof (cases "seedLeaves inp")
  case (Abort e)
  then show ?thesis using assms by (simp add: checkInternal_def)
next
  case (Refute d')
  then show ?thesis using assms seedLeaves_Refute[OF Refute] by (auto simp: checkInternal_def)
next
  case (Continue st)
  then have "mainLoop inp fuel st = Some (Inr (b, d))" using assms by (simp add: checkInternal_def)
  from mainLoop_verdict[OF this] show ?thesis by auto
qed

lemma forEachStep_no_Abort:
  "(\<And>x s. x \<in> set xs \<Longrightarrow> body x s \<noteq> Abort e) \<Longrightarrow> forEachStep body xs s \<noteq> Abort e"
proof (induction xs arbitrary: s)
  case Nil
  then show ?case by simp
next
  case (Cons x xs)
  then show ?case by (cases "body x s") auto
qed

lemma forEachStep_must_refute:
  assumes "x \<in> set xs"
    and "\<And>s. \<exists>d. body x s = Refute d"
    and "\<And>y s e. y \<in> set xs \<Longrightarrow> body y s \<noteq> Abort e"
  shows "\<exists>d. forEachStep body xs s = Refute d"
  using assms
proof (induction xs arbitrary: s)
  case Nil
  then show ?case by simp
next
  case (Cons y ys)
  show ?case
  proof (cases "body y s")
    case (Abort e)
    then show ?thesis using Cons.prems(3)[of y s e] by simp
  next
    case (Refute d)
    then show ?thesis by simp
  next
    case (Continue s')
    have "x \<noteq> y" using Continue Cons.prems(2)[of s] by auto
    then have "x \<in> set ys" using Cons.prems(1) by simp
    then have "\<exists>d. forEachStep body ys s' = Refute d"
      using Cons.IH Cons.prems(2,3) by simp
    then show ?thesis using Continue by simp
  qed
qed

lemma forEachStep_invariant:
  assumes "\<And>x s s'. x \<in> set xs \<Longrightarrow> P s \<Longrightarrow> body x s = Continue s' \<Longrightarrow> P s'"
    and "P s" and "forEachStep body xs s = Continue s'"
  shows "P s'"
  using assms
proof (induction xs arbitrary: s)
  case Nil
  then show ?case by simp
next
  case (Cons y ys)
  from Cons.prems(3) obtain s1 where b: "body y s = Continue s1"
    and r: "forEachStep body ys s1 = Continue s'"
    by (cases "body y s") auto
  have p1: "P s1" using Cons.prems(1)[of y s s1] Cons.prems(2) b by simp
  show ?case
  proof (rule Cons.IH[OF _ p1 r])
    fix x t t' assume "x \<in> set ys" "P t" "body x t = Continue t'"
    then show "P t'" using Cons.prems(1)[of x t t'] by simp
  qed
qed

subsection \<open>Leaf seeding\<close>

lemma addProcessed_no_Abort:
  "p < length (ind inp) \<Longrightarrow> p < length (inv inp) \<Longrightarrow> addProcessed inp p ptr st \<noteq> Abort e"
  by (simp add: addProcessed_def Let_def)

lemma seedTransition_no_Abort:
  "stateOf t < length (ind inp) \<Longrightarrow> stateOf t < length (inv inp)
   \<Longrightarrow> seedTransition inp acc tmp t st \<noteq> Abort e"
  by (simp add: seedTransition_def addProcessed_no_Abort)

lemma leafPostInsert_no_Abort:
  "children t = [] \<Longrightarrow> stateOf t < length (ind inp) \<Longrightarrow> stateOf t < length (inv inp)
   \<Longrightarrow> leafPostInsert inp t pa \<noteq> Abort e"
  by (cases pa) (simp add: leafPostInsert_def postInsert_def Let_def)

lemma leavesWellFormed_smaller:
  "leavesWellFormed inp \<Longrightarrow> symbol < length (smallerLeaves inp)
   \<Longrightarrow> t \<in> set (smallerLeaves inp ! symbol)
   \<Longrightarrow> stateOf t < length (ind inp) \<and> stateOf t < length (inv inp)"
  by (auto simp: leavesWellFormed_def list_all_iff)

lemma leavesWellFormed_bigger:
  assumes "leavesWellFormed inp" and "symbol < length (smallerLeaves inp)"
    and "symbol < length (biggerLeaves inp)" and "t \<in> set (biggerLeaves inp ! symbol)"
  shows "children t = [] \<and> stateOf t < length (ind inp) \<and> stateOf t < length (inv inp)"
proof -
  have "biggerLeaves inp ! symbol \<in> set (take (length (smallerLeaves inp)) (biggerLeaves inp))"
    using assms(2,3) by (auto simp: in_set_conv_nth intro!: exI[of _ symbol])
  then show ?thesis using assms(1,4) by (auto simp: leavesWellFormed_def list_all_iff)
qed

lemma seedSymbol_no_Abort:
  assumes "leavesWellFormed inp" and "symbol < length (smallerLeaves inp)"
    and "symbol < length (biggerLeaves inp)"
  shows "seedSymbol inp symbol st \<noteq> Abort e"
proof -
  have b: "forEachStep (leafPostInsert inp) (biggerLeaves inp ! symbol) ([], False) \<noteq> Abort e"
    by (rule forEachStep_no_Abort, rule leafPostInsert_no_Abort)
       (use leavesWellFormed_bigger[OF assms] in auto)
  have s: "forEachStep (seedTransition inp acc tmp) (smallerLeaves inp ! symbol) st \<noteq> Abort e"
    for acc tmp
    by (rule forEachStep_no_Abort, rule seedTransition_no_Abort)
       (use leavesWellFormed_smaller[OF assms(1,2)] in auto)
  show ?thesis using b s
    by (auto simp: seedSymbol_def split: step.splits)
qed

text \<open>
  Claim C4, as the code has it. Let the assertions of leaf seeding hold. If for a leaf
  symbol of the smaller automaton the bigger automaton has no transition, and the
  smaller automaton has a transition under that symbol whose parent state is final in
  the smaller automaton, then the check returns false. (A bigger automaton with fewer
  leaf symbols than the smaller one is refuted before the loop.)
\<close>

theorem uncovered_final_leaf:
  assumes wf: "leavesWellFormed inp"
    and sym: "symbol < length (smallerLeaves inp)"
    and nob: "symbol < length (biggerLeaves inp) \<longrightarrow> biggerLeaves inp ! symbol = []"
    and t: "t \<in> set (smallerLeaves inp ! symbol)"
    and fin: "stateOf t \<in> smallerFinalStates inp"
  shows "\<exists>d. checkInternal inp fuel = Some (Inr (False, d))"
proof (cases "length (biggerLeaves inp) < length (smallerLeaves inp)")
  case True
  then show ?thesis by (simp add: checkInternal_def seedLeaves_def)
next
  case False
  then have symb: "symbol < length (biggerLeaves inp)" using sym by simp
  then have emp: "biggerLeaves inp ! symbol = []" using nob by simp
  have here: "\<exists>d. seedSymbol inp symbol st = Refute d" for st
  proof -
    have "\<exists>d. forEachStep (seedTransition inp False (sort [])) (smallerLeaves inp ! symbol) st
        = Refute d"
    proof (rule forEachStep_must_refute[OF t])
      show "\<exists>d. seedTransition inp False (sort []) t s = Refute d" for s
        using fin by (simp add: seedTransition_def)
      show "seedTransition inp False (sort []) y s \<noteq> Abort e"
        if "y \<in> set (smallerLeaves inp ! symbol)" for y s e
        by (rule seedTransition_no_Abort) (use leavesWellFormed_smaller[OF wf sym that] in auto)
    qed
    then show ?thesis by (simp add: seedSymbol_def emp)
  qed
  have "\<exists>d. forEachStep (seedSymbol inp) [0..<length (smallerLeaves inp)]
      \<lparr> processed = [], nextSet = [] \<rparr> = Refute d"
  proof (rule forEachStep_must_refute[of symbol])
    show "symbol \<in> set [0..<length (smallerLeaves inp)]" using sym by simp
    show "\<exists>d. seedSymbol inp symbol s = Refute d" for s by (rule here)
    show "seedSymbol inp y s \<noteq> Abort e" if "y \<in> set [0..<length (smallerLeaves inp)]" for y s e
      by (rule seedSymbol_no_Abort[OF wf]) (use that False in auto)
  qed
  then show ?thesis using False by (auto simp: checkInternal_def seedLeaves_def)
qed

subsection \<open>The inductive step\<close>

lemma postLoop_empty_iff:
  assumes "forEachStep (postInsert inp) bts ([], False) = Continue (post, acc)"
  shows "post = [] \<longleftrightarrow> bts = []"
proof (cases bts)
  case Nil
  then show ?thesis using assms by simp
next
  case (Cons t ts)
  from assms Cons obtain pa1 where
    f: "postInsert inp t ([], False) = Continue pa1" and
    r: "forEachStep (postInsert inp) ts pa1 = Continue (post, acc)"
    by (cases "postInsert inp t ([], False)") auto
  have n1: "fst pa1 \<noteq> []"
    using f by (cases pa1) (auto simp: postInsert_def Let_def Antichain1C_insert_def
        Antichain1C_contains_def split: if_splits)
  have "fst (post, acc) \<noteq> []"
  proof (rule forEachStep_invariant[where P = "\<lambda>pa. fst pa \<noteq> []", OF _ n1 r])
    fix x s s' assume "fst s \<noteq> []" "postInsert inp x s = Continue s'"
    then show "fst s' \<noteq> []"
      by (cases s; cases s')
         (auto simp: postInsert_def Let_def Antichain1C_insert_def split: if_splits)
  qed
  then show ?thesis using Cons by simp
qed

lemma postLoop_accepting:
  assumes closed: "\<And>s s'. s \<in> biggerFinalStates inp \<Longrightarrow> s' < length (inv inp)
                     \<Longrightarrow> s \<in> set (inv inp ! s') \<Longrightarrow> s' \<in> biggerFinalStates inp"
    and run: "forEachStep (postInsert inp) bts ([], False) = Continue (post, acc)"
  shows "acc \<longleftrightarrow> (\<exists>s \<in> set post. s \<in> biggerFinalStates inp)"
proof -
  let ?P = "\<lambda>pa. snd pa \<longleftrightarrow> (\<exists>s \<in> set (fst pa). s \<in> biggerFinalStates inp)"
  have "?P (post, acc)"
  proof (rule forEachStep_invariant[where P = ?P, OF _ _ run])
    show "?P ([], False)" by simp
  next
    fix x s s' assume P: "?P s" and st: "postInsert inp x s = Continue s'"
    obtain p a where s: "s = (p, a)" by (cases s)
    show "?P s'"
    proof (cases "Antichain1C_contains p (ind inp ! stateOf x)")
      case True
      then show ?thesis using P st s by (auto simp: postInsert_def Let_def split: if_splits)
    next
      case False
      then have lt: "stateOf x < length (inv inp)"
        and s': "s' = (Antichain1C_insert (Antichain1C_refine p (inv inp ! stateOf x)) (stateOf x),
                      a \<or> stateOf x \<in> biggerFinalStates inp)"
        using st s by (auto simp: postInsert_def Let_def split: if_splits)
      have set': "set (fst s') =
          insert (stateOf x) {y \<in> set p. y \<notin> set (inv inp ! stateOf x)}"
        unfolding s' by (auto simp: Antichain1C_insert_def Antichain1C_refine_def)
      show ?thesis
      proof (cases "stateOf x \<in> biggerFinalStates inp")
        case True
        then show ?thesis unfolding set' using s' by auto
      next
        case nf: False
        have "y \<notin> set (inv inp ! stateOf x)" if "y \<in> set p" "y \<in> biggerFinalStates inp" for y
          using closed[OF that(2) lt] nf by auto
        then show ?thesis unfolding set' using s' P s nf by auto
      qed
    qed
  qed
  then show ?thesis by simp
qed

text \<open>
  Claim C2, as the code has it. Let the preorder be such that a state above a final
  state of the bigger automaton is final (the identity is such a preorder), and let
  \<open>Q'\<close> be the post macro-state computed for a choice of macro-states. The step
  refutes exactly when \<open>Q'\<close> is empty, whether or not the parent \<open>p\<close> is final, or when
  \<open>p\<close> is final in the smaller automaton and no state of \<open>Q'\<close> is final in the bigger
  one. \<open>Q'\<close> is empty exactly when no transition of the bigger automaton matches the
  choice. The description of the refutation is "smaller accepts, bigger does not".
\<close>

theorem choice_refutation:
  assumes closed: "\<forall>s' < length (inv inp). \<forall>s \<in> set (inv inp ! s').
                     s \<in> biggerFinalStates inp \<longrightarrow> s' \<in> biggerFinalStates inp"
    and big: "biggerTransitionsOf inp symbol choiceVector = Continue biggerTransitions"
    and post: "forEachStep (postInsert inp) biggerTransitions ([], False) = Continue (Q', acc)"
  shows "((\<exists>d. choiceStep inp symbol smallerTransition choiceVector temporary = Refute d)
          \<longleftrightarrow> Q' = [] \<or> (stateOf smallerTransition \<in> smallerFinalStates inp
                         \<and> \<not> (\<exists>s \<in> set Q'. s \<in> biggerFinalStates inp)))
       \<and> (Q' = [] \<longleftrightarrow> biggerTransitions = [])
       \<and> (\<forall>d. choiceStep inp symbol smallerTransition choiceVector temporary = Refute d
              \<longrightarrow> d = smallerAccepts)"
proof -
  have acc: "acc \<longleftrightarrow> (\<exists>s \<in> set Q'. s \<in> biggerFinalStates inp)"
    by (rule postLoop_accepting[OF _ post]) (use closed in blast)
  have addP: "addProcessed inp p ptr st \<noteq> Refute d" for p ptr st d
    by (rule addProcessed_not_Refute)
  have "(\<exists>d. choiceStep inp symbol smallerTransition choiceVector temporary = Refute d)
          \<longleftrightarrow> Q' = [] \<or> (\<not> acc \<and> stateOf smallerTransition \<in> smallerFinalStates inp)"
    using big post by (auto simp: choiceStep_def Let_def split: if_splits)
  then show ?thesis using acc postLoop_empty_iff[OF post] choiceStep_Refute by blast
qed

lemma identityIndex_simps [simp]:
  "length (identityIndex n) = n"
  "s < n \<Longrightarrow> identityIndex n ! s = [s]"
  by (simp_all add: identityIndex_def)

lemma upwardAB_fields:
  "smallerLeaves upwardAB = [[], [\<lparr> children = [], stateOf = 1 \<rparr>], [\<lparr> children = [], stateOf = 1 \<rparr>]]"
  "smallerIndex upwardAB = [[], [[[\<lparr> children = [1], stateOf = 0 \<rparr>]]]]"
  "smallerFinalStates upwardAB = {0}"
  "biggerLeaves upwardAB = [[], [\<lparr> children = [], stateOf = 11 \<rparr>], [\<lparr> children = [], stateOf = 12 \<rparr>]]"
  "biggerIndex upwardAB = [[replicate 11 [] @ [[\<lparr> children = [11], stateOf = 10 \<rparr>],
                                          [\<lparr> children = [12], stateOf = 10 \<rparr>]]]]"
  "biggerFinalStates upwardAB = {10}"
  "ind upwardAB = identityIndex 13"
  "inv upwardAB = identityIndex 13"
  by (simp_all add: upwardAB_def)

lemma leafOnly_fields:
  "smallerLeaves (leafOnly F) = [[\<lparr> children = [], stateOf = 0 \<rparr>]]"
  "smallerIndex (leafOnly F) = [[]]"
  "smallerFinalStates (leafOnly F) = F"
  "biggerLeaves (leafOnly F) = [[]]"
  "biggerIndex (leafOnly F) = []"
  "biggerFinalStates (leafOnly F) = {}"
  "ind (leafOnly F) = identityIndex 1"
  "inv (leafOnly F) = identityIndex 1"
  by (simp_all add: leafOnly_def)

lemma unaryStep_fields:
  "smallerLeaves (unaryStep F) = [[\<lparr> children = [], stateOf = 0 \<rparr>]]"
  "smallerIndex (unaryStep F) = [[[], [[\<lparr> children = [0], stateOf = 1 \<rparr>]]], []]"
  "smallerFinalStates (unaryStep F) = F"
  "biggerLeaves (unaryStep F) = [[\<lparr> children = [], stateOf = 5 \<rparr>]]"
  "biggerIndex (unaryStep F) = []"
  "biggerFinalStates (unaryStep F) = {}"
  "ind (unaryStep F) = identityIndex 6"
  "inv (unaryStep F) = identityIndex 6"
  by (simp_all add: unaryStep_def)

lemmas up_eval = checkInternal_def seedLeaves_def seedSymbol_def seedTransition_def
  leafPostInsert_def postInsert_def addProcessed_def processPopped_def processSymbol_def
  processTransition_def promote_def choiceStep_def biggerTransitionsOf_def buildChoiceVector_def
  evalTransitions_def intersectionByLookup_def
  Antichain1C_contains_def Antichain1C_refine_def Antichain1C_insert_def
  Antichain2C_contains_def Antichain2C_lookup_def Antichain2C_insert_def Antichain2C_refine_def
  Antichain2C_erased_def nextErase_def elemLess_def lte_def gte_def noncachedLte_def
  upwardAB_fields leafOnly_fields unaryStep_fields Let_def nth_append

lemma run_leafOnly_final: "checkInternal (leafOnly {0}) 0 = Some (Inr (False, leavesNotCovered))"
  by (simp add: up_eval)

lemma run_leafOnly_nonfinal: "checkInternal (leafOnly {}) (Suc 0) = Some (Inr (True, inclusionProved))"
  by (simp add: up_eval)

lemma run_noLeafSymbols: "checkInternal noLeafSymbols 0 = Some (Inr (False, sizesIncompatible))"
  by (simp add: up_eval noLeafSymbols_def)

lemma run_unaryStep_nonfinal: "checkInternal (unaryStep {}) (Suc 0) = Some (Inr (False, smallerAccepts))"
  by (simp add: up_eval)

lemma run_unaryStep_final: "checkInternal (unaryStep {1}) (Suc 0) = Some (Inr (False, smallerAccepts))"
  by (simp add: up_eval)

lemma run_upwardAB: "checkInternal upwardAB (Suc (Suc (Suc 0))) = Some (Inr (True, inclusionProved))"
  by (simp add: up_eval)

subsection \<open>Runs of the examples\<close>

text \<open>One run for each description.\<close>

theorem refutation_reasons_witness:
  "checkInternal (leafOnly {0}) 0 = Some (Inr (False, leavesNotCovered))
   \<and> checkInternal noLeafSymbols 0 = Some (Inr (False, sizesIncompatible))
   \<and> checkInternal (unaryStep {1}) (Suc 0) = Some (Inr (False, smallerAccepts))
   \<and> checkInternal upwardAB (Suc (Suc (Suc 0))) = Some (Inr (True, inclusionProved))
   \<and> leavesNotCovered \<noteq> inclusionProved"
  using refutation_reasons[OF run_leafOnly_final] refutation_reasons[OF run_upwardAB]
    run_leafOnly_final run_noLeafSymbols run_unaryStep_final run_upwardAB
  by (simp add: leavesNotCovered_def inclusionProved_def)

text \<open>The leaf theorem on \<open>a \<rightarrow> 0\<close> with state 0 final, against a bigger automaton
  without a transition.\<close>

theorem uncovered_final_leaf_witness:
  "leavesWellFormed (leafOnly {0})
   \<and> (\<exists>d. checkInternal (leafOnly {0}) 0 = Some (Inr (False, d)))"
  using uncovered_final_leaf[of "leafOnly {0}" 0 "\<lparr> children = [], stateOf = 0 \<rparr>" 0]
  by (simp add: leavesWellFormed_def leafOnly_fields)

text \<open>
  Claim C4 as stated fails: with \<open>a \<rightarrow> 0\<close> in the smaller automaton, state 0 not
  final, and no \<open>a\<close>-transition in the bigger automaton, the check proves the
  inclusion.
\<close>

theorem nonfinal_leaf_counterexample:
  "checkInternal (leafOnly {}) (Suc 0) = Some (Inr (True, inclusionProved))
   \<and> biggerLeaves (leafOnly {}) ! 0 = []
   \<and> smallerLeaves (leafOnly {}) ! 0 = [\<lparr> children = [], stateOf = 0 \<rparr>]"
  using run_leafOnly_nonfinal by (simp add: leafOnly_fields)

text \<open>The step theorem on \<open>g(1) \<rightarrow> 0\<close> of \<open>upwardAB\<close> with the macro-state
  \<open>{11}\<close> for the child: \<open>Q' = {10}\<close>, and the step does not refute.\<close>

theorem choice_refutation_witness:
  "biggerTransitionsOf upwardAB 0 [[11]] = Continue [\<lparr> children = [11], stateOf = 10 \<rparr>]
   \<and> forEachStep (postInsert upwardAB) [\<lparr> children = [11], stateOf = 10 \<rparr>] ([], False)
       = Continue ([10], True)
   \<and> \<not> (\<exists>d. choiceStep upwardAB 0 \<lparr> children = [1], stateOf = 0 \<rparr> [[11]] [] = Refute d)"
proof -
  have b: "biggerTransitionsOf upwardAB 0 [[11]] = Continue [\<lparr> children = [11], stateOf = 10 \<rparr>]"
    by (simp add: up_eval)
  have p: "forEachStep (postInsert upwardAB) [\<lparr> children = [11], stateOf = 10 \<rparr>] ([], False)
       = Continue ([10], True)"
    by (simp add: up_eval)
  have c: "\<forall>s' < length (inv upwardAB). \<forall>s \<in> set (inv upwardAB ! s').
             s \<in> biggerFinalStates upwardAB \<longrightarrow> s' \<in> biggerFinalStates upwardAB"
    by (simp add: upwardAB_fields)
  show ?thesis
    using choice_refutation[OF c b p, of "\<lparr> children = [1], stateOf = 0 \<rparr>" "[]"] b p
    by (simp add: upwardAB_fields)
qed

text \<open>
  Claim C2 as stated fails: for \<open>f(0) \<rightarrow> 1\<close> with state 1 not final and no
  \<open>f\<close>-transition in the bigger automaton, \<open>Q'\<close> is empty and the step refutes; the
  whole check returns false on a smaller automaton without final states.
\<close>

theorem empty_post_counterexample:
  "choiceStep (unaryStep {}) 1 \<lparr> children = [0], stateOf = 1 \<rparr> [[5]] [] = Refute smallerAccepts
   \<and> stateOf \<lparr> children = [0], stateOf = 1 \<rparr> \<notin> smallerFinalStates (unaryStep {})
   \<and> checkInternal (unaryStep {}) (Suc 0) = Some (Inr (False, smallerAccepts))"
  using run_unaryStep_nonfinal by (simp add: up_eval)


section \<open>The verdicts of the two checkers\<close>

text \<open>
  Claim C1 fails on the code. On \<open>autA\<close> and \<open>autB\<close> with the identity preorder the
  downward functor refutes the pair \<open>(0, {10})\<close>, although the language of state 0 is
  included in the language of state 10, and although the upward check proves the
  inclusion: after \<open>(1, {11})\<close> and \<open>(1, {12})\<close> are
  refuted, \<open>isNoninclusionImplied\<close> refutes \<open>(1, {11, 12})\<close> because
  \<open>SetComparerBigger\<close> finds the stored \<open>{11}\<close> below \<open>{11, 12}\<close>.
\<close>

theorem downward_refutes_included_language:
  "expand (identityEnv autA autB) (Suc (Suc 0)) freshFunctor 0 [10] =
     Some (Inr (\<lparr> processingStopped = False, inclusionHolds = True, workset = [],
                  nonIncl = [(1, [[11], [12]]), (0, [[10]])], childrenCache = [] \<rparr>, False))
   \<and> checkInternal upwardAB (Suc (Suc (Suc 0))) = Some (Inr (True, inclusionProved))
   \<and> {t. accepts autA 0 t} \<subseteq> {t. accepts autB 10 t}"
  using downward_example_run run_upwardAB autA_included_in_autB by simp

end
